theory Spec2Isabelle
  imports Complex_Main "HOL-Library.Log_Nat"
begin

section \<open>Resilient email sending service: a shallow embedding\<close>

text \<open>
  The development follows the TypeScript sources: \<open>types.ts\<close>, \<open>utils/CircuitBreaker.ts\<close>,
  \<open>utils/RateLimiter.ts\<close> and \<open>EmailService.ts\<close>.

  Conventions of the embedding.
  \<^item> A class is a record of its fields; a method takes the object and returns the updated
    object. A \<open>Map\<close> is a partial function, a \<open>Set\<close> a set, an array a list.
  \<^item> A JavaScript \<open>number\<close> that holds a time in milliseconds or a count is an \<open>int\<close> or
    a \<open>nat\<close>; one that may be fractional is a \<open>rat\<close>. The numbers of the rate limiter
    (tokens, the refill rate) are IEEE 754 doubles: every arithmetic operation of the limiter
    is followed by the rounding \<open>rnd\<close> to the nearest double, ties to even. The delays of
    the backoff are exact; a timer does not resolve the difference. Values that reach
    \<open>2^1024\<close> in magnitude (\<open>Infinity\<close>), \<open>NaN\<close> and the negative zero are outside the model.
  \<^item> A thrown value is \<open>Inl\<close> of type \<open>thrown\<close>; a returned value is \<open>Inr\<close>.
  \<^item> Everything outside the service is the \<open>world\<close>: the clock read by \<open>Date.now()\<close>, and
    two traces that the model keeps of what the service asked of its environment (the
    timers it waited for and the provider calls it made). The clock moves only while the
    service awaits a timer or a provider, so all readings of \<open>Date.now()\<close> inside one
    synchronous stretch of code agree.
  \<^item> One call of an \<open>async\<close> method is run from start to end without another task of the
    event loop interleaving at its \<open>await\<close>s. The one task the service itself starts in the
    background, \<open>processQueue\<close>, is modelled up to each of its suspension points.
  \<^item> The \<open>Logger\<close> only collects text; its calls are left out.
\<close>

subsection \<open>types.ts\<close>

datatype priority = Low | Normal | High

record EmailMessage =
  msg_id :: string
  msg_to :: string
  msg_subject :: string
  msg_body :: string
  msg_priority :: "priority option"
  msg_timestamp :: int

record EmailResult =
  res_success :: bool
  res_messageId :: "string option"
  res_error :: "string option"
  res_provider :: string
  res_timestamp :: int

datatype status = Pending | Sending | Sent | Failed | Queued

record EmailStatus =
  st_messageId :: string
  st_recipient :: string
  st_subject :: string
  st_status :: status
  st_attempts :: nat
  st_lastAttempt :: "int option"
  st_provider :: "string option"
  st_error :: "string option"
  st_created :: int

record RetryOptions =
  maxAttempts :: int
  baseDelay :: rat
  maxDelay :: rat
  backoffFactor :: rat

record RateLimitOptions =
  maxRequests :: rat
  windowMs :: rat

record CircuitBreakerOptions =
  failureThreshold :: int
  resetTimeout :: int
  monitoringWindow :: int

record EmailServiceOptions =
  retry :: RetryOptions
  rateLimit :: RateLimitOptions
  circuitBreaker :: CircuitBreakerOptions
  enableLogging :: bool

subsection \<open>Thrown values and the world\<close>

text \<open>
  JavaScript can throw any value. The service only asks whether the value is an \<open>Error\<close>
  (and then reads its \<open>message\<close>) or not.
\<close>

datatype thrown = Error string | NonError

record world =
  clock :: int
  delays :: "rat list"
  invocations :: "(string \<times> string \<times> (thrown + EmailResult)) list"

text \<open>
  A provider has a name and a \<open>sendEmail\<close> method. The method is external code: given the
  message and the world it is called in, it throws or returns a result, and it ends at some
  time of the clock.
\<close>

record EmailProvider =
  provider_name :: string
  provider_sendEmail :: "EmailMessage \<Rightarrow> world \<Rightarrow> (thrown + EmailResult) \<times> int"

text \<open>
  \<open>provider.sendEmail(message)\<close>, awaited: the outcome, and the world after it, with the call
  appended to the trace of invocations.
\<close>

definition invoke :: "EmailProvider \<Rightarrow> EmailMessage \<Rightarrow> world \<Rightarrow> (thrown + EmailResult) \<times> world" where
  "invoke p message w =
     (case provider_sendEmail p message w of
        (outcome, t) \<Rightarrow>
          (outcome,
           w\<lparr>clock := t,
             invocations := invocations w @ [(provider_name p, msg_id message, outcome)]\<rparr>))"

text \<open>
  \<open>await this.delay(ms)\<close>: a timer of the host. \<open>timer ms w\<close> is the time at which the host
  resumes the task; the model appends the requested delay to the trace of delays.
\<close>

type_synonym timer = "rat \<Rightarrow> world \<Rightarrow> int"

definition delay :: "timer \<Rightarrow> rat \<Rightarrow> world \<Rightarrow> world" where
  "delay tm ms w = w\<lparr>clock := tm ms w, delays := delays w @ [ms]\<rparr>"

subsection \<open>utils/CircuitBreaker.ts\<close>

datatype breaker_state = Closed | Open | HalfOpen

record CircuitBreaker =
  failures :: nat
  lastFailureTime :: int
  state :: breaker_state
  successCount :: nat
  failureHistory :: "int list"
  cb_options :: CircuitBreakerOptions

definition CircuitBreaker_new :: "CircuitBreakerOptions \<Rightarrow> CircuitBreaker" where
  "CircuitBreaker_new opts =
     \<lparr>failures = 0, lastFailureTime = 0, state = Closed, successCount = 0,
      failureHistory = [], cb_options = opts\<rparr>"

text \<open>\<open>Array.prototype.findIndex\<close>: the first index whose element satisfies the test, or -1.\<close>

fun findIndex :: "('a \<Rightarrow> bool) \<Rightarrow> 'a list \<Rightarrow> int" where
  "findIndex P [] = -1"
| "findIndex P (x # xs) =
     (if P x then 0
      else (let i = findIndex P xs in if i < 0 then -1 else i + 1))"

text \<open>\<open>cleanupHistory\<close>; \<open>splice(0, index)\<close> removes the first \<open>index\<close> elements.\<close>

definition cleanupHistory :: "int \<Rightarrow> CircuitBreaker \<Rightarrow> CircuitBreaker" where
  "cleanupHistory now cb =
     (let cutoff = now - monitoringWindow (cb_options cb);
          index = findIndex (\<lambda>time. time \<ge> cutoff) (failureHistory cb)
      in if index > 0
         then cb\<lparr>failureHistory := drop (nat index) (failureHistory cb)\<rparr>
         else cb)"

definition onSuccess :: "int \<Rightarrow> CircuitBreaker \<Rightarrow> CircuitBreaker" where
  "onSuccess now cb =
     (let cb1 = cleanupHistory now (cb\<lparr>failures := 0\<rparr>)
      in if state cb1 = HalfOpen
         then (let cb2 = cb1\<lparr>successCount := successCount cb1 + 1\<rparr>
               in if successCount cb2 \<ge> 2 then cb2\<lparr>state := Closed\<rparr> else cb2)
         else cb1)"

definition onFailure :: "int \<Rightarrow> CircuitBreaker \<Rightarrow> CircuitBreaker" where
  "onFailure now cb =
     (let cb1 = cb\<lparr>failures := failures cb + 1, lastFailureTime := now\<rparr>;
          cb2 = cb1\<lparr>failureHistory := failureHistory cb1 @ [lastFailureTime cb1]\<rparr>;
          cb3 = cleanupHistory now cb2
      in if state cb3 = HalfOpen
         then cb3\<lparr>state := Open\<rparr>
         else (let recentFailures =
                     filter (\<lambda>time. now - time < monitoringWindow (cb_options cb3))
                       (failureHistory cb3)
               in if int (length recentFailures) \<ge> failureThreshold (cb_options cb3)
                  then cb3\<lparr>state := Open\<rparr>
                  else cb3))"

text \<open>
  \<open>execute(operation)\<close>. The operation is any awaited computation on the world. The first
  reading of the clock is taken before the operation runs, the bookkeeping reads it after.
\<close>

definition execute ::
  "CircuitBreaker \<Rightarrow> (world \<Rightarrow> (thrown + 'a) \<times> world) \<Rightarrow> world
     \<Rightarrow> (thrown + 'a) \<times> CircuitBreaker \<times> world" where
  "execute cb operation w =
     (if state cb = Open \<and> \<not> (clock w - lastFailureTime cb > resetTimeout (cb_options cb))
      then (Inl (Error ''Circuit breaker is OPEN''), cb, w)
      else (let cb1 = (if state cb = Open
                       then cb\<lparr>state := HalfOpen, successCount := 0\<rparr>
                       else cb)
            in case operation w of
                 (Inr result, w') \<Rightarrow> (Inr result, onSuccess (clock w') cb1, w')
               | (Inl error, w') \<Rightarrow> (Inl error, onFailure (clock w') cb1, w')))"

definition getState :: "CircuitBreaker \<Rightarrow> breaker_state" where
  "getState cb = state cb"

definition getFailureCount :: "CircuitBreaker \<Rightarrow> nat" where
  "getFailureCount cb = failures cb"

definition reset :: "CircuitBreaker \<Rightarrow> CircuitBreaker" where
  "reset cb =
     cb\<lparr>failures := 0, lastFailureTime := 0, state := Closed, successCount := 0,
        failureHistory := []\<rparr>"

subsection \<open>The arithmetic of JavaScript numbers\<close>

text \<open>
  A double is a rational \<open>m * 2^q\<close> with \<open>|m| \<le> 2^53\<close>; the exponent \<open>q\<close> of a normal
  double \<open>x\<close> is \<open>e - 52\<close>, where \<open>2^e \<le> |x| < 2^(e+1)\<close>, and that of a subnormal one is
  \<open>-1074\<close>. \<open>exponent a\<close> is the \<open>e\<close> of a positive rational \<open>a\<close>, \<open>quantum x\<close> the distance
  between the doubles around \<open>x\<close>. The result of an arithmetic operation is the double
  nearest to the exact result, and of two nearest ones the one with the even \<open>m\<close>.
\<close>

definition exponent :: "rat \<Rightarrow> int" where
  "exponent a = (if 1 \<le> a then bitlen \<lfloor>a\<rfloor> - 1 else - bitlen (\<lceil>1 / a\<rceil> - 1))"

definition round_half_even :: "rat \<Rightarrow> int" where
  "round_half_even x =
     (let f = \<lfloor>x\<rfloor>; d = x - of_int f
      in if d < 1 / 2 then f else if 1 / 2 < d then f + 1 else if even f then f else f + 1)"

definition quantum :: "rat \<Rightarrow> rat" where
  "quantum x = 2 powi (max (exponent \<bar>x\<bar>) (- 1022) - 52)"

definition rnd :: "rat \<Rightarrow> rat" where
  "rnd x = (if x = 0 then 0 else of_int (round_half_even (x / quantum x)) * quantum x)"

definition representable :: "rat \<Rightarrow> bool" where
  "representable x \<longleftrightarrow> (\<exists>m q. x = of_int m * 2 powi q \<and> \<bar>m\<bar> \<le> 2 ^ 53 \<and> - 1074 \<le> q)"

subsection \<open>utils/RateLimiter.ts\<close>

record RateLimiter =
  tokens :: rat
  lastRefill :: int
  maxTokens :: rat
  refillRate :: rat

text \<open>
  The constructor reads the clock once. With \<open>windowMs = 0\<close> the JavaScript quotient is
  \<open>Infinity\<close> or \<open>NaN\<close>, which the model does not have: statements about the rate of a
  constructed limiter assume \<open>windowMs \<noteq> 0\<close>.
\<close>

definition RateLimiter_new :: "RateLimitOptions \<Rightarrow> int \<Rightarrow> RateLimiter" where
  "RateLimiter_new opts now =
     \<lparr>tokens = maxRequests opts, lastRefill = now, maxTokens = maxRequests opts,
      refillRate = rnd (maxRequests opts / windowMs opts)\<rparr>"

text \<open>
  \<open>refill\<close>: a subtraction, a multiplication and an addition, each rounded; \<open>Math.min\<close>
  does not round.
\<close>

definition refill :: "int \<Rightarrow> RateLimiter \<Rightarrow> RateLimiter" where
  "refill now rl =
     (let timePassed = rnd (of_int (now - lastRefill rl));
          tokensToAdd = rnd (timePassed * refillRate rl)
      in rl\<lparr>tokens := min (maxTokens rl) (rnd (tokens rl + tokensToAdd)), lastRefill := now\<rparr>)"

definition acquire :: "int \<Rightarrow> RateLimiter \<Rightarrow> bool \<times> RateLimiter" where
  "acquire now rl =
     (let rl1 = refill now rl
      in if tokens rl1 \<ge> 1 then (True, rl1\<lparr>tokens := rnd (tokens rl1 - 1)\<rparr>) else (False, rl1))"

definition getAvailableTokens :: "int \<Rightarrow> RateLimiter \<Rightarrow> int \<times> RateLimiter" where
  "getAvailableTokens now rl = (let rl1 = refill now rl in (\<lfloor>tokens rl1\<rfloor>, rl1))"

text \<open>
  \<open>getRemainingTime\<close> does not refill. With fewer than one token and a rate of zero the
  JavaScript value is \<open>Infinity\<close>: \<open>None\<close> here.
\<close>

definition getRemainingTime :: "RateLimiter \<Rightarrow> int option" where
  "getRemainingTime rl =
     (if tokens rl \<ge> 1 then Some 0
      else if refillRate rl = 0 then None
      else Some \<lceil>rnd (rnd (1 - tokens rl) / refillRate rl)\<rceil>)"

subsection \<open>Numbers in template strings\<close>

definition digit_char :: "nat \<Rightarrow> char" where
  "digit_char d = char_of (of_char (CHR ''0'') + d)"

fun show_nat :: "nat \<Rightarrow> string" where
  "show_nat n = (if n < 10 then [digit_char n] else show_nat (n div 10) @ [digit_char (n mod 10)])"

definition show_int :: "int \<Rightarrow> string" where
  "show_int i = (if i < 0 then CHR ''-'' # show_nat (nat (- i)) else show_nat (nat i))"

definition show_number :: "int option \<Rightarrow> string" where
  "show_number v = (case v of None \<Rightarrow> ''Infinity'' | Some i \<Rightarrow> show_int i)"

subsection \<open>EmailService.ts\<close>

text \<open>
  Where the background task \<open>processQueue\<close> is suspended: not started (or finished); at
  \<open>await this.delay(ms)\<close>, after which it goes back to the head of its loop; or at
  \<open>await this.rateLimiter.acquire()\<close>, whose body has already run and returned the flag.
\<close>

datatype queue_task = not_running | awaiting_delay "int option" | awaiting_acquire bool

record EmailService =
  providers :: "EmailProvider list"
  options :: EmailServiceOptions
  rateLimiter :: RateLimiter
  circuitBreakers :: "string \<rightharpoonup> CircuitBreaker"
  emailStatuses :: "string \<rightharpoonup> EmailStatus"
  sentEmails :: "string set"
  emailQueue :: "EmailMessage list"
  isProcessingQueue :: bool
  queueTask :: queue_task

definition EmailService_new :: "EmailProvider list \<Rightarrow> EmailServiceOptions \<Rightarrow> int \<Rightarrow> EmailService" where
  "EmailService_new ps opts now =
     \<lparr>providers = ps,
      options = opts,
      rateLimiter = RateLimiter_new (rateLimit opts) now,
      circuitBreakers =
        fold (\<lambda>provider m. m(provider_name provider \<mapsto> CircuitBreaker_new (circuitBreaker opts)))
          ps Map.empty,
      emailStatuses = Map.empty,
      sentEmails = {},
      emailQueue = [],
      isProcessingQueue = False,
      queueTask = not_running\<rparr>"

definition updateStatus :: "string \<Rightarrow> EmailStatus \<Rightarrow> EmailService \<Rightarrow> EmailService" where
  "updateStatus messageId st svc = svc\<lparr>emailStatuses := (emailStatuses svc)(messageId \<mapsto> st)\<rparr>"

definition incrementAttemptCount :: "string \<Rightarrow> EmailService \<Rightarrow> EmailService" where
  "incrementAttemptCount messageId svc =
     (case emailStatuses svc messageId of
        None \<Rightarrow> svc
      | Some st \<Rightarrow>
          svc\<lparr>emailStatuses := (emailStatuses svc)(messageId \<mapsto> st\<lparr>st_attempts := st_attempts st + 1\<rparr>)\<rparr>)"

text \<open>\<open>error instanceof Error ? error.message : 'Unknown error'\<close>\<close>

definition error_message :: "thrown \<Rightarrow> string" where
  "error_message e = (case e of Error m \<Rightarrow> m | NonError \<Rightarrow> ''Unknown error'')"

text \<open>
  The \<open>every\<close> over the providers; a provider without a breaker makes it false, an empty list
  of providers makes it true.
\<close>

definition allCircuitBreakersOpen :: "EmailService \<Rightarrow> bool" where
  "allCircuitBreakersOpen svc =
     list_all
       (\<lambda>provider. case circuitBreakers svc (provider_name provider) of
                     None \<Rightarrow> False
                   | Some cb \<Rightarrow> getState cb = Open)
       (providers svc)"

text \<open>
  \<open>sendWithRetry\<close>. The breaker is the object stored under the provider's name; the loop
  carries it and stores it back after each \<open>execute\<close>. \<open>attempt\<close> is the loop variable
  before its increment.
\<close>

function sendWithRetry_loop ::
  "timer \<Rightarrow> RetryOptions \<Rightarrow> EmailMessage \<Rightarrow> EmailProvider \<Rightarrow> CircuitBreaker \<Rightarrow> nat
     \<Rightarrow> EmailService \<Rightarrow> world \<Rightarrow> (thrown + EmailResult) \<times> EmailService \<times> world" where
  "sendWithRetry_loop tm ro message provider cb attempt svc w =
     (if int attempt < maxAttempts ro
      then (let attempt1 = attempt + 1;
                svc1 = incrementAttemptCount (msg_id message) svc
            in case execute cb (invoke provider message) w of
                 (Inr result, cb', w') \<Rightarrow>
                   (Inr result,
                    svc1\<lparr>circuitBreakers := (circuitBreakers svc1)(provider_name provider \<mapsto> cb')\<rparr>,
                    w')
               | (Inl error, cb', w') \<Rightarrow>
                   (let svc2 = svc1\<lparr>circuitBreakers :=
                                      (circuitBreakers svc1)(provider_name provider \<mapsto> cb')\<rparr>;
                        isLastAttempt = (int attempt1 = maxAttempts ro)
                    in if isLastAttempt then (Inl error, svc2, w')
                       else sendWithRetry_loop tm ro message provider cb' attempt1 svc2
                              (delay tm
                                 (min (baseDelay ro * backoffFactor ro ^ (attempt1 - 1)) (maxDelay ro))
                                 w')))
      else (Inl (Error (''Max attempts ('' @ show_int (maxAttempts ro) @ '') exceeded'')), svc, w))"
  by pat_completeness auto
termination
  by (relation "measure (\<lambda>(tm, ro, message, provider, cb, attempt, svc, w).
                  nat (maxAttempts ro - int attempt))") auto

definition sendWithRetry ::
  "timer \<Rightarrow> EmailMessage \<Rightarrow> EmailProvider \<Rightarrow> CircuitBreaker \<Rightarrow> EmailService \<Rightarrow> world
     \<Rightarrow> (thrown + EmailResult) \<times> EmailService \<times> world" where
  "sendWithRetry tm message provider cb svc w =
     sendWithRetry_loop tm (retry (options svc)) message provider cb 0 svc w"

text \<open>
  \<open>sendWithRetryAndFallback\<close>: the loop over the providers, with \<open>lastError\<close>. \<open>lastError\<close> is
  \<open>null\<close> or an \<open>Error\<close>; the model keeps the \<open>Error\<close>'s message. The function has no
  \<open>throw\<close> of its own, and catches what \<open>sendWithRetry\<close> throws.
\<close>

fun sendWithRetryAndFallback_loop ::
  "timer \<Rightarrow> EmailMessage \<Rightarrow> EmailProvider list \<Rightarrow> string option \<Rightarrow> EmailService \<Rightarrow> world
     \<Rightarrow> (thrown + EmailResult) \<times> EmailService \<times> world" where
  "sendWithRetryAndFallback_loop tm message [] lastError svc w =
     (let errorMessage =
            (case lastError of
               None \<Rightarrow> ''All providers failed''
             | Some m \<Rightarrow> if m = [] then ''All providers failed'' else m)
      in (Inr \<lparr>res_success = False, res_messageId = None, res_error = Some errorMessage,
               res_provider = ''none'', res_timestamp = clock w\<rparr>, svc, w))"
| "sendWithRetryAndFallback_loop tm message (provider # rest) lastError svc w =
     (case circuitBreakers svc (provider_name provider) of
        None \<Rightarrow> sendWithRetryAndFallback_loop tm message rest lastError svc w
      | Some cb \<Rightarrow>
          (case sendWithRetry tm message provider cb svc w of
             (Inr result, svc', w') \<Rightarrow> (Inr result, svc', w')
           | (Inl error, svc', w') \<Rightarrow>
               sendWithRetryAndFallback_loop tm message rest (Some (error_message error)) svc' w'))"

definition sendWithRetryAndFallback ::
  "timer \<Rightarrow> EmailMessage \<Rightarrow> EmailService \<Rightarrow> world \<Rightarrow> (thrown + EmailResult) \<times> EmailService \<times> world" where
  "sendWithRetryAndFallback tm message svc w =
     sendWithRetryAndFallback_loop tm message (providers svc) None svc w"

text \<open>
  \<open>processQueue\<close>, from the head of its \<open>while\<close> loop to the next \<open>await\<close> (or to its end).
  The body of \<open>acquire\<close> runs before the task is suspended on its promise.
\<close>

definition processQueue_loop :: "EmailService \<Rightarrow> world \<Rightarrow> EmailService" where
  "processQueue_loop svc w =
     (if length (emailQueue svc) > 0
      then (if allCircuitBreakersOpen svc
            then svc\<lparr>queueTask := awaiting_delay (Some 5000)\<rparr>
            else (case acquire (clock w) (rateLimiter svc) of
                    (admitted, rl) \<Rightarrow> svc\<lparr>rateLimiter := rl, queueTask := awaiting_acquire admitted\<rparr>))
      else svc\<lparr>isProcessingQueue := False, queueTask := not_running\<rparr>)"

text \<open>\<open>this.processQueue()\<close>, not awaited: what the call does before it returns its promise.\<close>

definition processQueue :: "EmailService \<Rightarrow> world \<Rightarrow> EmailService" where
  "processQueue svc w =
     (if isProcessingQueue svc \<or> length (emailQueue svc) = 0 then svc
      else processQueue_loop (svc\<lparr>isProcessingQueue := True\<rparr>) w)"

definition addToQueue :: "EmailMessage \<Rightarrow> EmailService \<Rightarrow> world \<Rightarrow> EmailService" where
  "addToQueue message svc w =
     (let svc1 = svc\<lparr>emailQueue := emailQueue svc @ [message]\<rparr>;
          svc2 = updateStatus (msg_id message)
                   \<lparr>st_messageId = msg_id message, st_recipient = msg_to message,
                    st_subject = msg_subject message, st_status = Queued, st_attempts = 0,
                    st_lastAttempt = None, st_provider = None, st_error = None,
                    st_created = clock w\<rparr> svc1
      in processQueue svc2 w)"

text \<open>\<open>x || Date.now()\<close> for a number \<open>x\<close>: zero is falsy.\<close>

definition or_now :: "int \<Rightarrow> world \<Rightarrow> int" where
  "or_now x w = (if x = 0 then clock w else x)"

definition attempts_or_0 :: "EmailService \<Rightarrow> string \<Rightarrow> nat" where
  "attempts_or_0 svc messageId =
     (case emailStatuses svc messageId of None \<Rightarrow> 0 | Some st \<Rightarrow> st_attempts st)"

definition created_or_now :: "EmailService \<Rightarrow> string \<Rightarrow> world \<Rightarrow> int" where
  "created_or_now svc messageId w =
     (case emailStatuses svc messageId of None \<Rightarrow> clock w | Some st \<Rightarrow> or_now (st_created st) w)"

text \<open>
  The idempotency check at the head of \<open>sendEmail\<close>: the result it returns, if it returns.
\<close>

definition alreadySent :: "EmailMessage \<Rightarrow> EmailService \<Rightarrow> world \<Rightarrow> EmailResult option" where
  "alreadySent message svc w =
     (if msg_id message \<in> sentEmails svc
      then (case emailStatuses svc (msg_id message) of
              None \<Rightarrow> None
            | Some st \<Rightarrow>
                if st_status st = Sent
                then Some \<lparr>res_success = True, res_messageId = Some (msg_id message),
                           res_error = None,
                           res_provider =
                             (case st_provider st of
                                None \<Rightarrow> ''unknown''
                              | Some p \<Rightarrow> if p = [] then ''unknown'' else p),
                           res_timestamp =
                             (case st_lastAttempt st of
                                None \<Rightarrow> clock w
                              | Some t \<Rightarrow> or_now t w)\<rparr>
                else None)
      else None)"

definition sendEmail ::
  "timer \<Rightarrow> EmailMessage \<Rightarrow> EmailService \<Rightarrow> world \<Rightarrow> (thrown + EmailResult) \<times> EmailService \<times> world" where
  "sendEmail tm message svc w =
     (case alreadySent message svc w of
        Some result \<Rightarrow> (Inr result, svc, w)
      | None \<Rightarrow>
          if allCircuitBreakersOpen svc
          then (Inr \<lparr>res_success = False, res_messageId = None,
                     res_error = Some ''All providers temporarily unavailable. Email queued for retry.'',
                     res_provider = ''queue'', res_timestamp = clock w\<rparr>,
                addToQueue message svc w, w)
          else (case acquire (clock w) (rateLimiter svc) of
                  (False, rl) \<Rightarrow>
                    (let waitTime = getRemainingTime rl
                     in (Inr \<lparr>res_success = False, res_messageId = None,
                              res_error = Some (''Rate limit exceeded. Queued for processing in ''
                                                @ show_number waitTime @ ''ms''),
                              res_provider = ''queue'', res_timestamp = clock w\<rparr>,
                         addToQueue message (svc\<lparr>rateLimiter := rl\<rparr>) w, w))
                | (True, rl) \<Rightarrow>
                    (let svc1 = updateStatus (msg_id message)
                                  \<lparr>st_messageId = msg_id message, st_recipient = msg_to message,
                                   st_subject = msg_subject message, st_status = Sending,
                                   st_attempts = 0, st_lastAttempt = None, st_provider = None,
                                   st_error = None, st_created = clock w\<rparr>
                                  (svc\<lparr>rateLimiter := rl\<rparr>)
                     in case sendWithRetryAndFallback tm message svc1 w of
                          (Inr result, svc2, w2) \<Rightarrow>
                            if res_success result
                            then (Inr result,
                                  updateStatus (msg_id message)
                                    \<lparr>st_messageId = msg_id message, st_recipient = msg_to message,
                                     st_subject = msg_subject message, st_status = Sent,
                                     st_attempts = attempts_or_0 svc2 (msg_id message),
                                     st_lastAttempt = Some (clock w2),
                                     st_provider = Some (res_provider result), st_error = None,
                                     st_created = created_or_now svc2 (msg_id message) w2\<rparr>
                                    (svc2\<lparr>sentEmails := insert (msg_id message) (sentEmails svc2)\<rparr>),
                                  w2)
                            else (Inr result,
                                  updateStatus (msg_id message)
                                    \<lparr>st_messageId = msg_id message, st_recipient = msg_to message,
                                     st_subject = msg_subject message, st_status = Failed,
                                     st_attempts = attempts_or_0 svc2 (msg_id message),
                                     st_lastAttempt = Some (clock w2),
                                     st_provider = None, st_error = res_error result,
                                     st_created = created_or_now svc2 (msg_id message) w2\<rparr>
                                    svc2,
                                  w2)
                        | (Inl error, svc2, w2) \<Rightarrow>
                            (let errorMessage = error_message error
                             in (Inr \<lparr>res_success = False, res_messageId = None,
                                      res_error = Some errorMessage, res_provider = ''none'',
                                      res_timestamp = clock w2\<rparr>,
                                 updateStatus (msg_id message)
                                   \<lparr>st_messageId = msg_id message, st_recipient = msg_to message,
                                    st_subject = msg_subject message, st_status = Failed,
                                    st_attempts = attempts_or_0 svc2 (msg_id message),
                                    st_lastAttempt = Some (clock w2),
                                    st_provider = None, st_error = Some errorMessage,
                                    st_created = created_or_now svc2 (msg_id message) w2\<rparr>
                                   svc2,
                                 w2)))))"

text \<open>
  The background task resumes at the \<open>await\<close> it was suspended at and runs to its next one.
  After \<open>acquire\<close> returned true it takes the head of the queue and awaits \<open>sendEmail\<close>; after
  that, and after a timer, it is at the head of its loop again.
\<close>

definition processQueue_resume :: "timer \<Rightarrow> EmailService \<Rightarrow> world \<Rightarrow> EmailService \<times> world" where
  "processQueue_resume tm svc w =
     (case queueTask svc of
        not_running \<Rightarrow> (svc, w)
      | awaiting_delay ms \<Rightarrow> (processQueue_loop svc w, w)
      | awaiting_acquire admitted \<Rightarrow>
          if admitted
          then (case emailQueue svc of
                  [] \<Rightarrow> (processQueue_loop svc w, w)
                | message # rest \<Rightarrow>
                    (case sendEmail tm message (svc\<lparr>emailQueue := rest\<rparr>) w of
                       (result, svc', w') \<Rightarrow> (processQueue_loop svc' w', w')))
          else (svc\<lparr>queueTask := awaiting_delay (getRemainingTime (rateLimiter svc))\<rparr>, w))"

definition getEmailStatus :: "EmailService \<Rightarrow> string \<Rightarrow> EmailStatus option" where
  "getEmailStatus svc messageId = emailStatuses svc messageId"

definition resetCircuitBreakers :: "EmailService \<Rightarrow> EmailService" where
  "resetCircuitBreakers svc =
     svc\<lparr>circuitBreakers := (\<lambda>name. map_option reset (circuitBreakers svc name))\<rparr>"

definition clear :: "EmailService \<Rightarrow> EmailService" where
  "clear svc =
     resetCircuitBreakers (svc\<lparr>emailStatuses := Map.empty, sentEmails := {}, emailQueue := []\<rparr>)"

subsection \<open>Runs of the service\<close>

text \<open>
  What can happen to a service between its construction and any later moment: a caller
  submits a message, the background task is resumed, a caller resets the breakers or clears
  the service, or the clock moves while nothing runs.
\<close>

datatype event =
    ev_sendEmail EmailMessage
  | ev_resume
  | ev_resetCircuitBreakers
  | ev_clear
  | ev_clock int

fun step :: "timer \<Rightarrow> event \<Rightarrow> EmailService \<times> world \<Rightarrow> EmailService \<times> world" where
  "step tm (ev_sendEmail message) (svc, w) = snd (sendEmail tm message svc w)"
| "step tm ev_resume (svc, w) = processQueue_resume tm svc w"
| "step tm ev_resetCircuitBreakers (svc, w) = (resetCircuitBreakers svc, w)"
| "step tm ev_clear (svc, w) = (clear svc, w)"
| "step tm (ev_clock t) (svc, w) = (svc, w\<lparr>clock := t\<rparr>)"

fun run :: "timer \<Rightarrow> event list \<Rightarrow> EmailService \<times> world \<Rightarrow> EmailService \<times> world" where
  "run tm [] s = s"
| "run tm (e # es) s = run tm es (step tm e s)"

subsection \<open>The formula of the backoff, and notions used in the statements\<close>

text \<open>
  The wait the specification gives for the retry after the failed attempt number \<open>attempt\<close>
  (counted from 1): \<open>min(baseDelay * backoffFactor^(attempt-1), maxDelay)\<close>.
\<close>

definition backoff_delay :: "RetryOptions \<Rightarrow> nat \<Rightarrow> rat" where
  "backoff_delay ro attempt = min (baseDelay ro * backoffFactor ro ^ (attempt - 1)) (maxDelay ro)"

text \<open>A status with \<open>n\<close> more attempts.\<close>

definition bump :: "nat \<Rightarrow> EmailStatus \<Rightarrow> EmailStatus" where
  "bump n st = st\<lparr>st_attempts := st_attempts st + n\<rparr>"

text \<open>The breaker as \<open>execute\<close> has it when it lets the call through.\<close>

definition admitted_breaker :: "CircuitBreaker \<Rightarrow> CircuitBreaker" where
  "admitted_breaker cb = (if state cb = Open then cb\<lparr>state := HalfOpen, successCount := 0\<rparr> else cb)"


text \<open>
  The service after one try of \<open>sendWithRetry\<close>: the attempt is counted and the breaker is
  the one \<open>execute\<close> returned. The error thrown after the loop.
\<close>

definition after_try :: "EmailMessage \<Rightarrow> EmailProvider \<Rightarrow> CircuitBreaker \<Rightarrow> EmailService \<Rightarrow> EmailService" where
  "after_try message provider cb1 svc =
     (incrementAttemptCount (msg_id message) svc)
       \<lparr>circuitBreakers :=
          (circuitBreakers (incrementAttemptCount (msg_id message) svc))(provider_name provider \<mapsto> cb1)\<rparr>"

definition max_attempts_error :: "RetryOptions \<Rightarrow> thrown" where
  "max_attempts_error ro = Error (''Max attempts ('' @ show_int (maxAttempts ro) @ '') exceeded'')"

text \<open>
  The statuses \<open>addToQueue\<close> and \<open>sendEmail\<close> write, the results \<open>sendEmail\<close> and
  \<open>sendWithRetryAndFallback\<close> build, and the status \<open>sendEmail\<close> records when the delivery
  has returned \<open>result\<close>.
\<close>

definition queued_status :: "EmailMessage \<Rightarrow> world \<Rightarrow> EmailStatus" where
  "queued_status message w =
     \<lparr>st_messageId = msg_id message, st_recipient = msg_to message,
      st_subject = msg_subject message, st_status = Queued, st_attempts = 0,
      st_lastAttempt = None, st_provider = None, st_error = None, st_created = clock w\<rparr>"

definition sending_status :: "EmailMessage \<Rightarrow> world \<Rightarrow> EmailStatus" where
  "sending_status message w =
     \<lparr>st_messageId = msg_id message, st_recipient = msg_to message,
      st_subject = msg_subject message, st_status = Sending, st_attempts = 0,
      st_lastAttempt = None, st_provider = None, st_error = None, st_created = clock w\<rparr>"

definition all_unavailable :: "world \<Rightarrow> EmailResult" where
  "all_unavailable w =
     \<lparr>res_success = False, res_messageId = None,
      res_error = Some ''All providers temporarily unavailable. Email queued for retry.'',
      res_provider = ''queue'', res_timestamp = clock w\<rparr>"

definition final_status :: "EmailMessage \<Rightarrow> EmailResult \<Rightarrow> EmailService \<Rightarrow> world \<Rightarrow> EmailStatus" where
  "final_status message result svc2 w2 =
     \<lparr>st_messageId = msg_id message, st_recipient = msg_to message,
      st_subject = msg_subject message,
      st_status = (if res_success result then Sent else Failed),
      st_attempts = attempts_or_0 svc2 (msg_id message),
      st_lastAttempt = Some (clock w2),
      st_provider = (if res_success result then Some (res_provider result) else None),
      st_error = (if res_success result then None else res_error result),
      st_created = created_or_now svc2 (msg_id message) w2\<rparr>"

definition failure_result :: "string \<Rightarrow> world \<Rightarrow> EmailResult" where
  "failure_result e w =
     \<lparr>res_success = False, res_messageId = None, res_error = Some e,
      res_provider = ''none'', res_timestamp = clock w\<rparr>"

text \<open>No message is recorded as sent; every provider has a breaker.\<close>

definition never_sent :: "EmailService \<Rightarrow> bool" where
  "never_sent svc \<longleftrightarrow>
     sentEmails svc = {} \<and> (\<forall>i st. emailStatuses svc i = Some st \<longrightarrow> st_status st \<noteq> Sent)"

definition breakers_present :: "EmailService \<Rightarrow> bool" where
  "breakers_present svc \<longleftrightarrow>
     (\<forall>p \<in> set (providers svc). circuitBreakers svc (provider_name p) \<noteq> None)"

text \<open>
  How often the provider named \<open>name\<close> has been called. A provider that fails exactly \<open>k\<close>
  times and then succeeds, from its call number \<open>base\<close> on; a provider that fails always.
\<close>

definition calls_of :: "string \<Rightarrow> world \<Rightarrow> nat" where
  "calls_of name w = length (filter (\<lambda>(n, i, r). n = name) (invocations w))"

definition fails_then_succeeds :: "EmailProvider \<Rightarrow> EmailMessage \<Rightarrow> nat \<Rightarrow> nat \<Rightarrow> bool" where
  "fails_then_succeeds provider message base k \<longleftrightarrow>
     (\<forall>w. base \<le> calls_of (provider_name provider) w
            \<and> calls_of (provider_name provider) w < base + k
            \<longrightarrow> isl (fst (provider_sendEmail provider message w)))
     \<and> (\<forall>w. calls_of (provider_name provider) w = base + k
            \<longrightarrow> \<not> isl (fst (provider_sendEmail provider message w)))"

definition always_throws :: "EmailProvider \<Rightarrow> bool" where
  "always_throws provider \<longleftrightarrow> (\<forall>message w. isl (fst (provider_sendEmail provider message w)))"

text \<open>
  The success outcome that the idempotency check of \<open>sendEmail\<close> builds from the provider
  name \<open>p\<close> and the time \<open>t\<close> of a status, each of which may be absent:
  \<open>p || 'unknown'\<close> and \<open>t || Date.now()\<close>. A service in which every identifier recorded as
  sent has a status \<open>sent\<close> with a provider and a time.
\<close>

definition replay :: "EmailMessage \<Rightarrow> string option \<Rightarrow> int option \<Rightarrow> world \<Rightarrow> EmailResult" where
  "replay message p t w =
     \<lparr>res_success = True, res_messageId = Some (msg_id message), res_error = None,
      res_provider = (if p = None \<or> p = Some [] then ''unknown'' else the p),
      res_timestamp = (if t = None \<or> t = Some 0 then clock w else the t)\<rparr>"

definition sent_recorded :: "EmailService \<Rightarrow> bool" where
  "sent_recorded svc \<longleftrightarrow>
     (\<forall>i \<in> sentEmails svc.
        \<exists>st. emailStatuses svc i = Some st \<and> st_status st = Sent
             \<and> st_provider st \<noteq> None \<and> st_lastAttempt st \<noteq> None)"

text \<open>
  The tries of one call of \<open>sendWithRetry\<close>. The breaker \<open>cb\<close> rejects a call made in the
  world \<open>w\<close> when it is open and the time since its last failure does not exceed
  \<open>resetTimeout\<close>. If the first try starts with the breaker and the world \<open>s\<close>, and the
  tries 1 to \<open>i\<close> fail and are waited for, then try number \<open>i + 1\<close> starts with the breaker
  and the world \<open>try_start \<dots> s i\<close>: those that try number \<open>i\<close> left behind, after the wait
  of the backoff. \<open>try_outcome\<close> is what \<open>execute\<close> returns in that try, \<open>try_rejected\<close>
  says that the breaker rejects it, and \<open>rejected_tries \<dots> n\<close> is the number of rejected
  tries among the first \<open>n\<close>.
\<close>

definition rejects :: "CircuitBreaker \<Rightarrow> world \<Rightarrow> bool" where
  "rejects cb w \<longleftrightarrow>
     state cb = Open \<and> clock w - lastFailureTime cb \<le> resetTimeout (cb_options cb)"

fun try_start ::
  "timer \<Rightarrow> RetryOptions \<Rightarrow> EmailMessage \<Rightarrow> EmailProvider \<Rightarrow> CircuitBreaker \<times> world \<Rightarrow> nat
     \<Rightarrow> CircuitBreaker \<times> world" where
  "try_start tm ro message provider s 0 = s"
| "try_start tm ro message provider s (Suc i) =
     (case try_start tm ro message provider s i of
        (cb, w) \<Rightarrow>
          (case execute cb (invoke provider message) w of
             (outcome, cb1, w1) \<Rightarrow> (cb1, delay tm (backoff_delay ro (Suc i)) w1)))"

definition try_outcome ::
  "timer \<Rightarrow> RetryOptions \<Rightarrow> EmailMessage \<Rightarrow> EmailProvider \<Rightarrow> CircuitBreaker \<times> world \<Rightarrow> nat
     \<Rightarrow> (thrown + EmailResult) \<times> CircuitBreaker \<times> world" where
  "try_outcome tm ro message provider s i =
     (case try_start tm ro message provider s i of
        (cb, w) \<Rightarrow> execute cb (invoke provider message) w)"

definition try_rejected ::
  "timer \<Rightarrow> RetryOptions \<Rightarrow> EmailMessage \<Rightarrow> EmailProvider \<Rightarrow> CircuitBreaker \<times> world \<Rightarrow> nat \<Rightarrow> bool" where
  "try_rejected tm ro message provider s i =
     (case try_start tm ro message provider s i of (cb, w) \<Rightarrow> rejects cb w)"

definition rejected_tries ::
  "timer \<Rightarrow> RetryOptions \<Rightarrow> EmailMessage \<Rightarrow> EmailProvider \<Rightarrow> CircuitBreaker \<times> world \<Rightarrow> nat \<Rightarrow> nat" where
  "rejected_tries tm ro message provider s n =
     length (filter (try_rejected tm ro message provider s) [0..<n])"




text \<open>A limiter after calls of its two methods that refill.\<close>

datatype limiter_call = call_acquire int | call_getAvailableTokens int

fun limiter_step :: "limiter_call \<Rightarrow> RateLimiter \<Rightarrow> RateLimiter" where
  "limiter_step (call_acquire now) rl = snd (acquire now rl)"
| "limiter_step (call_getAvailableTokens now) rl = snd (getAvailableTokens now rl)"

definition limiter_after :: "limiter_call list \<Rightarrow> RateLimiter \<Rightarrow> RateLimiter" where
  "limiter_after calls rl = fold limiter_step calls rl"

subsection \<open>Fixtures of the test suites\<close>

text \<open>
  \<open>CircuitBreaker.test.ts\<close>: the options, the two operations, and a breaker after a
  sequence of calls, each at a time of the clock and succeeding or failing.
\<close>

definition cb_test_options :: CircuitBreakerOptions where
  "cb_test_options = \<lparr>failureThreshold = 3, resetTimeout = 1000, monitoringWindow = 5000\<rparr>"

definition failingOperation :: "world \<Rightarrow> (thrown + string) \<times> world" where
  "failingOperation w = (Inl (Error ''Operation failed''), w)"

definition successfulOperation :: "world \<Rightarrow> (thrown + string) \<times> world" where
  "successfulOperation w = (Inr ''success'', w)"

definition at_time :: "int \<Rightarrow> world" where
  "at_time t = \<lparr>clock = t, delays = [], invocations = []\<rparr>"

definition breaker_after :: "(int \<times> bool) list \<Rightarrow> CircuitBreaker \<Rightarrow> CircuitBreaker" where
  "breaker_after calls cb =
     fold (\<lambda>(t, ok) b.
             fst (snd (execute b (if ok then successfulOperation else failingOperation) (at_time t))))
       calls cb"

text \<open>\<open>RateLimiter.test.ts\<close>: the options.\<close>

definition rl_test_options :: RateLimitOptions where
  "rl_test_options = \<lparr>maxRequests = 5, windowMs = 1000\<rparr>"

text \<open>A limiter of one request in 49 ms: the quotient \<open>1 / 49\<close> is not a double.\<close>

definition tight_options :: RateLimitOptions where
  "tight_options = \<lparr>maxRequests = 1, windowMs = 49\<rparr>"

text \<open>
  \<open>EmailService.test.ts\<close>: the options and the test message. A scripted provider stands for
  the mock providers with their failure rate set to 0 or 1, and for the test that replaces
  \<open>sendEmail\<close> by a function counting its calls: its call number \<open>n\<close> (from 0) throws when
  \<open>fails n\<close>, and every call takes 100 ms. The timer resumes exactly on time.
\<close>

definition test_options :: EmailServiceOptions where
  "test_options =
     \<lparr>retry = \<lparr>maxAttempts = 3, baseDelay = 100, maxDelay = 1000, backoffFactor = 2\<rparr>,
      rateLimit = \<lparr>maxRequests = 10, windowMs = 5000\<rparr>,
      circuitBreaker = \<lparr>failureThreshold = 3, resetTimeout = 5000, monitoringWindow = 10000\<rparr>,
      enableLogging = False\<rparr>"

definition exact_timer :: timer where
  "exact_timer ms w = clock w + \<lceil>ms\<rceil>"

definition scripted_provider :: "string \<Rightarrow> (nat \<Rightarrow> bool) \<Rightarrow> EmailProvider" where
  "scripted_provider name fails =
     \<lparr>provider_name = name,
      provider_sendEmail = (\<lambda>message w.
        (if fails (calls_of name w)
         then Inl (Error (name @ '': Network timeout or service unavailable''))
         else Inr \<lparr>res_success = True, res_messageId = Some (name @ ''-'' @ msg_id message),
                   res_error = None, res_provider = name, res_timestamp = clock w + 100\<rparr>,
         clock w + 100))\<rparr>"

definition createTestMessage :: "string \<Rightarrow> EmailMessage" where
  "createTestMessage i =
     \<lparr>msg_id = i, msg_to = ''test@example.com'', msg_subject = ''Test Subject'',
      msg_body = ''Test Body'', msg_priority = Some Normal, msg_timestamp = 0\<rparr>"

definition provider_A :: "(nat \<Rightarrow> bool) \<Rightarrow> EmailProvider" where
  "provider_A fails = scripted_provider ''Provider A'' fails"

definition always_failing :: "nat \<Rightarrow> bool" where "always_failing n = True"

definition never_failing :: "nat \<Rightarrow> bool" where "never_failing n = False"

definition failing_first :: "nat \<Rightarrow> nat \<Rightarrow> bool" where "failing_first k n = (n < k)"

definition service_A :: "(nat \<Rightarrow> bool) \<Rightarrow> EmailServiceOptions \<Rightarrow> EmailService" where
  "service_A fails opts = EmailService_new [provider_A fails] opts 0"

text \<open>
  Two more sets of options: a breaker that opens at the first failure and probes again after
  150 ms, and a backoff that reaches its cap.
\<close>

definition eager_breaker_options :: EmailServiceOptions where
  "eager_breaker_options =
     \<lparr>retry = \<lparr>maxAttempts = 4, baseDelay = 100, maxDelay = 1000, backoffFactor = 2\<rparr>,
      rateLimit = \<lparr>maxRequests = 10, windowMs = 5000\<rparr>,
      circuitBreaker = \<lparr>failureThreshold = 1, resetTimeout = 150, monitoringWindow = 10000\<rparr>,
      enableLogging = False\<rparr>"

definition steep_backoff_options :: EmailServiceOptions where
  "steep_backoff_options =
     \<lparr>retry = \<lparr>maxAttempts = 5, baseDelay = 100, maxDelay = 1000, backoffFactor = 4\<rparr>,
      rateLimit = \<lparr>maxRequests = 10, windowMs = 5000\<rparr>,
      circuitBreaker = \<lparr>failureThreshold = 3, resetTimeout = 5000, monitoringWindow = 10000\<rparr>,
      enableLogging = False\<rparr>"

text \<open>
  The first submission of the message \<open>test-1\<close> to a fresh service with the one provider, and
  what it leaves behind when the provider never fails and when it always fails.
\<close>

definition first_send :: "(nat \<Rightarrow> bool) \<Rightarrow> EmailServiceOptions \<Rightarrow> (thrown + EmailResult) \<times> EmailService \<times> world" where
  "first_send fails opts = sendEmail exact_timer (createTestMessage ''test-1'') (service_A fails opts) (at_time 0)"

definition network_error :: thrown where
  "network_error = Error ''Provider A: Network timeout or service unavailable''"

definition accepted :: "int \<Rightarrow> EmailResult" where
  "accepted t = \<lparr>res_success = True, res_messageId = Some ''Provider A-test-1'', res_error = None,
                 res_provider = ''Provider A'', res_timestamp = t\<rparr>"

definition sent_service :: EmailService where
  "sent_service =
     \<lparr>providers = [provider_A never_failing], options = test_options,
      rateLimiter = \<lparr>tokens = 9, lastRefill = 0, maxTokens = 10, refillRate = rnd (1 / 500)\<rparr>,
      circuitBreakers = [''Provider A'' \<mapsto> CircuitBreaker_new (circuitBreaker test_options)],
      emailStatuses = [''test-1'' \<mapsto>
         \<lparr>st_messageId = ''test-1'', st_recipient = ''test@example.com'',
          st_subject = ''Test Subject'', st_status = Sent, st_attempts = 1,
          st_lastAttempt = Some 100, st_provider = Some ''Provider A'',
          st_error = None, st_created = 100\<rparr>],
      sentEmails = {''test-1''}, emailQueue = [], isProcessingQueue = False,
      queueTask = not_running\<rparr>"

definition sent_world :: world where
  "sent_world =
     \<lparr>clock = 100, delays = [], invocations = [(''Provider A'', ''test-1'', Inr (accepted 100))]\<rparr>"

definition failed_service :: EmailService where
  "failed_service =
     \<lparr>providers = [provider_A always_failing], options = test_options,
      rateLimiter = \<lparr>tokens = 9, lastRefill = 0, maxTokens = 10, refillRate = rnd (1 / 500)\<rparr>,
      circuitBreakers = [''Provider A'' \<mapsto>
         \<lparr>failures = 3, lastFailureTime = 600, state = Open, successCount = 0,
          failureHistory = [100, 300, 600], cb_options = circuitBreaker test_options\<rparr>],
      emailStatuses = [''test-1'' \<mapsto>
         \<lparr>st_messageId = ''test-1'', st_recipient = ''test@example.com'',
          st_subject = ''Test Subject'', st_status = Failed, st_attempts = 3,
          st_lastAttempt = Some 600, st_provider = None,
          st_error = Some ''Provider A: Network timeout or service unavailable'',
          st_created = 600\<rparr>],
      sentEmails = {}, emailQueue = [], isProcessingQueue = False,
      queueTask = not_running\<rparr>"

definition failed_world :: world where
  "failed_world =
     \<lparr>clock = 600, delays = [100, 200],
      invocations = [(''Provider A'', ''test-1'', Inl network_error),
                     (''Provider A'', ''test-1'', Inl network_error),
                     (''Provider A'', ''test-1'', Inl network_error)]\<rparr>"



text \<open>
  A provider that reports success under the empty name, and one that answers at once, so
  that the clock does not move; the first submission of \<open>test-1\<close> to a fresh service with
  each of them.
\<close>

definition anonymous_provider :: EmailProvider where
  "anonymous_provider =
     \<lparr>provider_name = ''Provider A'',
      provider_sendEmail = (\<lambda>message w.
        (Inr \<lparr>res_success = True, res_messageId = Some (''A-'' @ msg_id message), res_error = None,
              res_provider = [], res_timestamp = clock w + 100\<rparr>,
         clock w + 100))\<rparr>"

definition instant_provider :: EmailProvider where
  "instant_provider =
     \<lparr>provider_name = ''Provider A'',
      provider_sendEmail = (\<lambda>message w.
        (Inr \<lparr>res_success = True, res_messageId = Some (''A-'' @ msg_id message), res_error = None,
              res_provider = ''Provider A'', res_timestamp = clock w\<rparr>,
         clock w))\<rparr>"

definition anonymous_send :: "(thrown + EmailResult) \<times> EmailService \<times> world" where
  "anonymous_send = sendEmail exact_timer (createTestMessage ''test-1'')
                      (EmailService_new [anonymous_provider] test_options 0) (at_time 0)"

definition instant_send :: "(thrown + EmailResult) \<times> EmailService \<times> world" where
  "instant_send = sendEmail exact_timer (createTestMessage ''test-1'')
                      (EmailService_new [instant_provider] test_options 0) (at_time 0)"



text \<open>
  The second mock provider, and a service with both. The service of the one provider when
  the delivery of \<open>test-1\<close> starts. The limiter after the first admission, a limiter
  without tokens and a service that holds it, and options that allow no attempt.
\<close>

definition provider_B :: "(nat \<Rightarrow> bool) \<Rightarrow> EmailProvider" where
  "provider_B fails = scripted_provider ''Provider B'' fails"

definition service_AB :: "(nat \<Rightarrow> bool) \<Rightarrow> (nat \<Rightarrow> bool) \<Rightarrow> EmailServiceOptions \<Rightarrow> EmailService" where
  "service_AB fails_A fails_B opts = EmailService_new [provider_A fails_A, provider_B fails_B] opts 0"

definition sending_A :: "(nat \<Rightarrow> bool) \<Rightarrow> EmailServiceOptions \<Rightarrow> EmailService" where
  "sending_A fails opts =
     updateStatus ''test-1'' (sending_status (createTestMessage ''test-1'') (at_time 0))
       (service_A fails opts)"







section \<open>The circuit breaker\<close>

lemma findIndex_ge: "findIndex P xs \<ge> -1"
  by (induction xs) (auto simp: Let_def)

lemma filter_drop_findIndex:
  assumes "\<And>x. P x \<Longrightarrow> Q x"
  shows "filter P (drop (nat (findIndex Q xs)) xs) = filter P xs"
  using assms
proof (induction xs)
  case Nil then show ?case by simp
next
  case (Cons x xs)
  show ?case
  proof (cases "Q x")
    case True then show ?thesis by simp
  next
    case False
    then have nP: "\<not> P x" using Cons.prems by blast
    show ?thesis
    proof (cases "findIndex Q xs < 0")
      case True
      then show ?thesis using False by (simp add: Let_def)
    next
      case F2: False
      then have "nat (findIndex Q xs + 1) = Suc (nat (findIndex Q xs))" by simp
      then show ?thesis using False F2 nP Cons by (simp add: Let_def)
    qed
  qed
qed

lemma filter_cleanupHistory:
  "filter (\<lambda>time. now - time < monitoringWindow (cb_options cb)) (failureHistory (cleanupHistory now cb))
   = filter (\<lambda>time. now - time < monitoringWindow (cb_options cb)) (failureHistory cb)"
proof -
  have "\<And>x. now - x < monitoringWindow (cb_options cb) \<Longrightarrow> now - monitoringWindow (cb_options cb) \<le> x"
    by simp
  from filter_drop_findIndex[of "\<lambda>time. now - time < monitoringWindow (cb_options cb)" "\<lambda>time. now - monitoringWindow (cb_options cb) \<le> time", OF this]
  show ?thesis
    unfolding cleanupHistory_def Let_def by simp
qed

lemma cleanupHistory_fields [simp]:
  "state (cleanupHistory now cb) = state cb"
  "successCount (cleanupHistory now cb) = successCount cb"
  "failures (cleanupHistory now cb) = failures cb"
  "lastFailureTime (cleanupHistory now cb) = lastFailureTime cb"
  "cb_options (cleanupHistory now cb) = cb_options cb"
  by (simp_all add: cleanupHistory_def Let_def)

lemma onFailure_state:
  "state (onFailure now cb) =
     (if state cb = HalfOpen then Open
      else if failureThreshold (cb_options cb)
              \<le> int (length (filter (\<lambda>time. now - time < monitoringWindow (cb_options cb))
                                (failureHistory cb @ [now])))
           then Open else state cb)"
  using filter_cleanupHistory[of now "cb\<lparr>failures := failures cb + 1, lastFailureTime := now, failureHistory := failureHistory cb @ [now]\<rparr>"]
  by (simp add: onFailure_def Let_def)

lemma onSuccess_state:
  "state (onSuccess now cb) =
     (if state cb = HalfOpen \<and> successCount cb + 1 \<ge> 2 then Closed else state cb)"
  "successCount (onSuccess now cb) =
     (if state cb = HalfOpen then successCount cb + 1 else successCount cb)"
  by (simp_all add: onSuccess_def Let_def)

lemma execute_not_Open:
  "state cb \<noteq> Open \<Longrightarrow>
   execute cb operation w =
     (case operation w of
        (Inr result, w') \<Rightarrow> (Inr result, onSuccess (clock w') cb, w')
      | (Inl error, w') \<Rightarrow> (Inl error, onFailure (clock w') cb, w'))"
  by (simp add: execute_def)

lemma execute_Open_elapsed:
  "state cb = Open \<Longrightarrow> clock w - lastFailureTime cb > resetTimeout (cb_options cb) \<Longrightarrow>
   execute cb operation w = execute (cb\<lparr>state := HalfOpen, successCount := 0\<rparr>) operation w"
  by (simp add: execute_def)

lemma execute_HalfOpen_success:
  assumes "state cb = HalfOpen" "fst (operation w) = Inr r"
  shows "state (fst (snd (execute cb operation w))) = (if successCount cb + 1 \<ge> 2 then Closed else HalfOpen)"
    and "successCount (fst (snd (execute cb operation w))) = successCount cb + 1"
    and "snd (snd (execute cb operation w)) = snd (operation w)"
    and "fst (execute cb operation w) = fst (operation w)"
  using assms by (cases "operation w"; simp add: execute_not_Open onSuccess_state)+

lemma execute_HalfOpen_failure:
  assumes "state cb = HalfOpen" "fst (operation w) = Inl e"
  shows "state (fst (snd (execute cb operation w))) = Open"
    and "snd (snd (execute cb operation w)) = snd (operation w)"
    and "fst (execute cb operation w) = fst (operation w)"
  using assms by (cases "operation w"; simp add: execute_not_Open onFailure_state)+

lemma execute_Closed_success:
  assumes "state cb = Closed" "fst (operation w) = Inr r"
  shows "state (fst (snd (execute cb operation w))) = Closed"
  using assms by (cases "operation w"; simp add: execute_not_Open onSuccess_state)

lemma two_successes_close:
  assumes "state cb = HalfOpen" "fst (operation1 w) = Inr r1"
    "fst (operation2 (snd (operation1 w))) = Inr r2"
  shows "state (fst (snd (execute (fst (snd (execute cb operation1 w))) operation2
                           (snd (snd (execute cb operation1 w)))))) = Closed"
proof -
  let ?cb1 = "fst (snd (execute cb operation1 w))"
  have w1: "snd (snd (execute cb operation1 w)) = snd (operation1 w)"
    using execute_HalfOpen_success(3)[where cb=cb and operation=operation1 and w=w and r=r1] assms by simp
  show ?thesis
  proof (cases "successCount cb + 1 \<ge> 2")
    case True
    then have "state ?cb1 = Closed"
      using execute_HalfOpen_success(1)[where cb=cb and operation=operation1 and w=w and r=r1] assms by simp
    then show ?thesis
      using execute_Closed_success[where cb="?cb1" and operation=operation2 and w="snd (operation1 w)" and r=r2]
        assms(3) w1 by simp
  next
    case False
    then have st: "state ?cb1 = HalfOpen"
      using execute_HalfOpen_success(1)[where cb=cb and operation=operation1 and w=w and r=r1] assms by simp
    have "successCount ?cb1 + 1 \<ge> 2"
      using execute_HalfOpen_success(2)[where cb=cb and operation=operation1 and w=w and r=r1] assms by simp
    then show ?thesis
      using execute_HalfOpen_success(1)[where cb="?cb1" and operation=operation2 and w="snd (operation1 w)" and r=r2]
        st assms(3) w1 by simp
  qed
qed

lemmas breaker_eval = breaker_after_def execute_def CircuitBreaker_new_def cb_test_options_def
        failingOperation_def successfulOperation_def at_time_def onFailure_def onSuccess_def
        cleanupHistory_def Let_def

text \<open>
  Claim C3. A failed invocation on a closed breaker leaves it open exactly when the recorded
  failures whose timestamps lie within the monitoring window, the new one included, number
  at least \<open>failureThreshold\<close>. An open breaker, while the time since the last failure does not
  exceed \<open>resetTimeout\<close>, makes \<open>execute\<close> throw the error \<open>Circuit breaker is OPEN\<close> with the
  breaker and the world as they were: the operation, whatever it is, has not run.
\<close>

theorem breaker_trip:
  "(state cb = Closed \<and> operation w = (Inl e, w') \<longrightarrow>
      (state (fst (snd (execute cb operation w))) = Open
        \<longleftrightarrow> failureThreshold (cb_options cb)
              \<le> int (length (filter (\<lambda>time. clock w' - time < monitoringWindow (cb_options cb))
                                (failureHistory cb @ [clock w'])))))
   \<and> (state cb = Open \<and> clock w - lastFailureTime cb \<le> resetTimeout (cb_options cb) \<longrightarrow>
        execute cb operation w = (Inl (Error ''Circuit breaker is OPEN''), cb, w))"
  by (auto simp: execute_def onFailure_state)

theorem breaker_trip_witness:
  "state (breaker_after [(0, False), (10, False)] (CircuitBreaker_new cb_test_options)) = Closed
   \<and> failingOperation (at_time 20) = (Inl (Error ''Operation failed''), at_time 20)
   \<and> state (fst (snd (execute
               (breaker_after [(0, False), (10, False)] (CircuitBreaker_new cb_test_options))
               failingOperation (at_time 20)))) = Open
   \<and> state (breaker_after [(0, False), (10, False), (20, False)]
              (CircuitBreaker_new cb_test_options)) = Open
   \<and> execute (breaker_after [(0, False), (10, False), (20, False)]
                (CircuitBreaker_new cb_test_options)) successfulOperation (at_time 1020)
       = (Inl (Error ''Circuit breaker is OPEN''),
          breaker_after [(0, False), (10, False), (20, False)] (CircuitBreaker_new cb_test_options),
          at_time 1020)"
proof -
  have two: "breaker_after [(0, False), (10, False)] (CircuitBreaker_new cb_test_options)
             = \<lparr>failures = 2, lastFailureTime = 10, state = Closed, successCount = 0,
                failureHistory = [0, 10], cb_options = cb_test_options\<rparr>"
    by (simp add: breaker_after_def execute_def CircuitBreaker_new_def cb_test_options_def
        failingOperation_def at_time_def onFailure_def cleanupHistory_def Let_def)
  have three: "breaker_after [(0, False), (10, False), (20, False)] (CircuitBreaker_new cb_test_options)
             = \<lparr>failures = 3, lastFailureTime = 20, state = Open, successCount = 0,
                failureHistory = [0, 10, 20], cb_options = cb_test_options\<rparr>"
    by (simp add: breaker_after_def execute_def CircuitBreaker_new_def cb_test_options_def
        failingOperation_def at_time_def onFailure_def cleanupHistory_def Let_def)
  show ?thesis
    using breaker_trip[where cb="breaker_after [(0, False), (10, False)] (CircuitBreaker_new cb_test_options)"
        and operation=failingOperation and w="at_time 20" and e="Error ''Operation failed''"
        and w'="at_time 20"]
      breaker_trip[where cb="breaker_after [(0, False), (10, False), (20, False)]
                               (CircuitBreaker_new cb_test_options)"
        and operation=successfulOperation and w="at_time 1020"]
    unfolding two three
    by (simp add: failingOperation_def at_time_def cb_test_options_def)
qed

text \<open>
  Claim C4. On an open breaker whose last failure is more than \<open>resetTimeout\<close> ago,
  \<open>execute\<close> behaves as on the same breaker in state half-open with the success counter 0: it
  runs the operation and returns its outcome and its world; a success leaves the breaker
  half-open with one success counted, a failure leaves it open. From half-open, two
  successful invocations in a row leave the breaker closed, and one failed invocation leaves
  it open.
\<close>

theorem breaker_recovery:
  "(state cb = Open \<and> clock w - lastFailureTime cb > resetTimeout (cb_options cb) \<longrightarrow>
      execute cb operation w = execute (cb\<lparr>state := HalfOpen, successCount := 0\<rparr>) operation w
      \<and> fst (execute cb operation w) = fst (operation w)
      \<and> snd (snd (execute cb operation w)) = snd (operation w)
      \<and> (case fst (operation w) of
            Inr result \<Rightarrow> state (fst (snd (execute cb operation w))) = HalfOpen
                          \<and> successCount (fst (snd (execute cb operation w))) = 1
          | Inl error \<Rightarrow> state (fst (snd (execute cb operation w))) = Open))
   \<and> (state cb = HalfOpen \<and> fst (operation1 w) = Inr r1 \<and> fst (operation2 (snd (operation1 w))) = Inr r2 \<longrightarrow>
        state (fst (snd (execute (fst (snd (execute cb operation1 w))) operation2
                           (snd (snd (execute cb operation1 w)))))) = Closed)
   \<and> (state cb = HalfOpen \<and> fst (operation w) = Inl e \<longrightarrow>
        state (fst (snd (execute cb operation w))) = Open)"
proof (intro conjI impI)
  assume a: "state cb = Open \<and> clock w - lastFailureTime cb > resetTimeout (cb_options cb)"
  let ?h = "cb\<lparr>state := HalfOpen, successCount := 0\<rparr>"
  show eq: "execute cb operation w = execute ?h operation w"
    using a by (simp add: execute_Open_elapsed)
  have h: "state ?h = HalfOpen" "successCount ?h = 0" by simp_all
  show "fst (execute cb operation w) = fst (operation w)"
    unfolding eq by (cases "operation w"; cases "fst (operation w)"; simp add: execute_not_Open)
  show "snd (snd (execute cb operation w)) = snd (operation w)"
    unfolding eq by (cases "operation w"; cases "fst (operation w)"; simp add: execute_not_Open)
  show "case fst (operation w) of
            Inr result \<Rightarrow> state (fst (snd (execute cb operation w))) = HalfOpen
                          \<and> successCount (fst (snd (execute cb operation w))) = 1
          | Inl error \<Rightarrow> state (fst (snd (execute cb operation w))) = Open"
  proof (cases "fst (operation w)")
    case (Inl e)
    then show ?thesis
      using execute_HalfOpen_failure(1)[where cb="?h" and operation=operation and w=w and e=e]
      by (simp add: eq)
  next
    case (Inr r)
    then show ?thesis
      using execute_HalfOpen_success(1,2)[where cb="?h" and operation=operation and w=w and r=r]
      by (simp add: eq)
  qed
next
  assume "state cb = HalfOpen \<and> fst (operation1 w) = Inr r1 \<and> fst (operation2 (snd (operation1 w))) = Inr r2"
  then show "state (fst (snd (execute (fst (snd (execute cb operation1 w))) operation2
                           (snd (snd (execute cb operation1 w)))))) = Closed"
    using two_successes_close[where cb=cb and ?operation1.0=operation1 and w=w and ?r1.0=r1 and ?operation2.0=operation2 and ?r2.0=r2]
    by simp
next
  assume "state cb = HalfOpen \<and> fst (operation w) = Inl e"
  then show "state (fst (snd (execute cb operation w))) = Open"
    using execute_HalfOpen_failure(1)[where cb=cb and operation=operation and w=w and e=e] by simp
qed

theorem breaker_recovery_witness:
  "state (breaker_after [(0, False), (10, False), (20, False)] (CircuitBreaker_new cb_test_options)) = Open
   \<and> clock (at_time 1100)
         - lastFailureTime (breaker_after [(0, False), (10, False), (20, False)]
                              (CircuitBreaker_new cb_test_options))
       > resetTimeout (cb_options (breaker_after [(0, False), (10, False), (20, False)]
                                     (CircuitBreaker_new cb_test_options)))
   \<and> state (fst (snd (execute
        (breaker_after [(0, False), (10, False), (20, False)] (CircuitBreaker_new cb_test_options))
        successfulOperation (at_time 1100)))) = HalfOpen
   \<and> state (breaker_after [(0, False), (10, False), (20, False), (1100, True)]
              (CircuitBreaker_new cb_test_options)) = HalfOpen
   \<and> state (fst (snd (execute
        (fst (snd (execute
           (breaker_after [(0, False), (10, False), (20, False), (1100, True)]
              (CircuitBreaker_new cb_test_options))
           successfulOperation (at_time 1200))))
        successfulOperation
        (snd (snd (execute
           (breaker_after [(0, False), (10, False), (20, False), (1100, True)]
              (CircuitBreaker_new cb_test_options))
           successfulOperation (at_time 1200))))))) = Closed
   \<and> state (fst (snd (execute
        (breaker_after [(0, False), (10, False), (20, False), (1100, True)]
              (CircuitBreaker_new cb_test_options))
        failingOperation (at_time 1200)))) = Open"
proof -
  let ?new = "CircuitBreaker_new cb_test_options"
  have three: "breaker_after [(0, False), (10, False), (20, False)] ?new
             = \<lparr>failures = 3, lastFailureTime = 20, state = Open, successCount = 0,
                failureHistory = [0, 10, 20], cb_options = cb_test_options\<rparr>"
    by (simp add: breaker_eval)
  have four: "breaker_after [(0, False), (10, False), (20, False), (1100, True)] ?new
             = \<lparr>failures = 0, lastFailureTime = 20, state = HalfOpen, successCount = 1,
                failureHistory = [0, 10, 20], cb_options = cb_test_options\<rparr>"
    by (simp add: breaker_eval)
  have s: "fst (successfulOperation (at_time 1100)) = Inr ''success''"
     "fst (successfulOperation (at_time 1200)) = Inr ''success''"
     "fst (successfulOperation (snd (successfulOperation (at_time 1200)))) = Inr ''success''"
     "fst (failingOperation (at_time 1200)) = Inl (Error ''Operation failed'')"
    by (simp_all add: successfulOperation_def failingOperation_def)
  let ?c3 = "breaker_after [(0, False), (10, False), (20, False)] ?new"
  let ?c4 = "breaker_after [(0, False), (10, False), (20, False), (1100, True)] ?new"
  have A: "state ?c3 = Open \<and> clock (at_time 1100) - lastFailureTime ?c3 > resetTimeout (cb_options ?c3)"
    unfolding three by (simp add: at_time_def cb_test_options_def)
  have B: "state ?c4 = HalfOpen" unfolding four by simp
  from A breaker_recovery[where cb="?c3" and w="at_time 1100" and operation=successfulOperation
        and ?operation1.0=successfulOperation and ?operation2.0=successfulOperation
        and ?r1.0="''success''" and ?r2.0="''success''" and e="Error ''Operation failed''"]
  have "case fst (successfulOperation (at_time 1100)) of
            Inr result \<Rightarrow> state (fst (snd (execute ?c3 successfulOperation (at_time 1100)))) = HalfOpen
                          \<and> successCount (fst (snd (execute ?c3 successfulOperation (at_time 1100)))) = 1
          | Inl error \<Rightarrow> state (fst (snd (execute ?c3 successfulOperation (at_time 1100)))) = Open"
    by blast
  then have C: "state (fst (snd (execute ?c3 successfulOperation (at_time 1100)))) = HalfOpen"
    by (simp add: s)
  note T = breaker_recovery[where cb="?c4" and w="at_time 1200" and operation=failingOperation
        and ?operation1.0=successfulOperation and ?operation2.0=successfulOperation
        and ?r1.0="''success''" and ?r2.0="''success''" and e="Error ''Operation failed''"]
  from T B s have D: "state (fst (snd (execute (fst (snd (execute ?c4 successfulOperation (at_time 1200))))
                           successfulOperation
                           (snd (snd (execute ?c4 successfulOperation (at_time 1200))))))) = Closed"
    by blast
  from T B s have E: "state (fst (snd (execute ?c4 failingOperation (at_time 1200)))) = Open"
    by blast
  show ?thesis using A B C D E by blast
qed

lemma findIndex_found:
  assumes "\<exists>x \<in> set xs. P x"
  shows "0 \<le> findIndex P xs \<and> nat (findIndex P xs) < length xs \<and> P (xs ! nat (findIndex P xs))"
  using assms
proof (induction xs)
  case Nil
  then show ?case by simp
next
  case (Cons x xs)
  show ?case
  proof (cases "P x")
    case True
    then show ?thesis by simp
  next
    case False
    with Cons.prems have "\<exists>y \<in> set xs. P y" by auto
    from Cons.IH[OF this] have ih: "0 \<le> findIndex P xs" "nat (findIndex P xs) < length xs"
      "P (xs ! nat (findIndex P xs))" by simp_all
    have "nat (findIndex P xs + 1) = Suc (nat (findIndex P xs))" using ih(1) by simp
    then show ?thesis using False ih by (simp add: Let_def)
  qed
qed

lemma cleanupHistory_prunes:
  assumes "sorted (failureHistory cb)"
    and "\<exists>t \<in> set (failureHistory cb). now - monitoringWindow (cb_options cb) \<le> t"
  shows "\<forall>t \<in> set (failureHistory (cleanupHistory now cb)). now - monitoringWindow (cb_options cb) \<le> t"
proof -
  let ?cutoff = "now - monitoringWindow (cb_options cb)"
  let ?xs = "failureHistory cb"
  let ?i = "nat (findIndex (\<lambda>time. ?cutoff \<le> time) ?xs)"
  from findIndex_found[of ?xs "\<lambda>time. ?cutoff \<le> time"] assms(2)
  have f: "0 \<le> findIndex (\<lambda>time. ?cutoff \<le> time) ?xs" "?i < length ?xs" "?cutoff \<le> ?xs ! ?i"
    by simp_all
  have all: "\<forall>t \<in> set (drop ?i ?xs). ?cutoff \<le> t"
  proof
    fix t assume "t \<in> set (drop ?i ?xs)"
    then obtain j where j: "j < length (drop ?i ?xs)" "t = drop ?i ?xs ! j"
      by (auto simp: in_set_conv_nth)
    then have "t = ?xs ! (?i + j)" "?i + j < length ?xs" by simp_all
    then have "?xs ! ?i \<le> t" using assms(1) by (simp add: sorted_nth_mono)
    then show "?cutoff \<le> t" using f(3) by simp
  qed
  show ?thesis
  proof (cases "findIndex (\<lambda>time. ?cutoff \<le> time) ?xs > 0")
    case True
    then show ?thesis using all by (simp add: cleanupHistory_def Let_def)
  next
    case False
    then have "?i = 0" by simp
    then show ?thesis using all False by (simp add: cleanupHistory_def Let_def)
  qed
qed

text \<open>
  After a failure the history is pruned: the failure just recorded is recent enough, so
  \<open>findIndex\<close> finds an entry.
\<close>

lemma onFailure_prunes:
  assumes "sorted (failureHistory cb)"
    and "\<forall>t \<in> set (failureHistory cb). t \<le> now"
    and "0 \<le> monitoringWindow (cb_options cb)"
  shows "\<forall>t \<in> set (failureHistory (onFailure now cb)). now - monitoringWindow (cb_options cb) \<le> t"
proof -
  let ?cb2 = "cb\<lparr>failures := failures cb + 1, lastFailureTime := now,
                 failureHistory := failureHistory cb @ [now]\<rparr>"
  have s: "sorted (failureHistory ?cb2)" using assms(1,2) by (simp add: sorted_append)
  have e: "\<exists>t \<in> set (failureHistory ?cb2). now - monitoringWindow (cb_options ?cb2) \<le> t"
    using assms(3) by simp
  from cleanupHistory_prunes[OF s e]
  show ?thesis by (simp add: onFailure_def Let_def)
qed

lemma findIndex_none: "\<forall>x \<in> set xs. \<not> P x \<Longrightarrow> findIndex P xs = -1"
  by (induction xs) (simp_all add: Let_def)

text \<open>
  When every entry is older than the window, \<open>findIndex\<close> returns -1 and \<open>cleanupHistory\<close>
  removes nothing.
\<close>

lemma cleanupHistory_all_stale:
  assumes "\<forall>t \<in> set (failureHistory cb). t < now - monitoringWindow (cb_options cb)"
  shows "cleanupHistory now cb = cb"
proof -
  have "findIndex (\<lambda>time. now - monitoringWindow (cb_options cb) \<le> time) (failureHistory cb) = -1"
    using assms by (intro findIndex_none) auto
  then show ?thesis by (simp add: cleanupHistory_def Let_def)
qed

text \<open>
  Claim C9. The claim asks that after every invocation, successful or failed, no entry of
  the failure history is older than the monitoring window. \<open>cleanupHistory\<close> removes the
  entries before the first one that is recent enough, and removes nothing when \<open>findIndex\<close>
  returns -1, that is when every entry is too old. After a failure this cannot happen, after
  a success it can: with the options of the test suite, one failure at time 1000 and one
  success at time 11000 leave the entry 1000 in the history, 5000 ms older than the cutoff.
\<close>

theorem stale_history_after_success:
  "failureHistory (breaker_after [(1000, False), (11000, True)] (CircuitBreaker_new cb_test_options))
     = [1000]
   \<and> 1000 < 11000 - monitoringWindow cb_test_options"
  by (simp add: breaker_after_def execute_def CircuitBreaker_new_def cb_test_options_def
      failingOperation_def successfulOperation_def at_time_def onSuccess_def onFailure_def
      cleanupHistory_def Let_def)

section \<open>The arithmetic of doubles\<close>

lemma bitlen_pos: "0 < n \<Longrightarrow> 1 \<le> bitlen n"
  using bitlen_bounds[of n] by (cases "bitlen n \<le> 0") auto

lemma exponent_bounds:
  assumes "0 < a"
  shows "2 powi exponent a \<le> a \<and> a < 2 powi (exponent a + 1)"
proof (cases "1 \<le> a")
  case True
  let ?n = "\<lfloor>a\<rfloor>"
  have n: "0 < ?n" using True by simp
  note b = bitlen_bounds[OF n]
  have b1: "1 \<le> bitlen ?n" using bitlen_pos[OF n] .
  have e: "exponent a = bitlen ?n - 1" using True by (simp add: exponent_def)
  have "(2::rat) powi (bitlen ?n - 1) = of_int (2 ^ nat (bitlen ?n - 1))"
    using b1 by (simp add: power_int_nonneg_exp)
  also have "\<dots> \<le> of_int ?n" using b by (simp only: of_int_le_iff)
  also have "\<dots> \<le> a" by simp
  finally have lo: "2 powi exponent a \<le> a" unfolding e .
  have "a < of_int (?n + 1)" by linarith
  also have "\<dots> \<le> of_int (2 ^ nat (bitlen ?n))" using b by (simp only: of_int_le_iff) simp
  also have "\<dots> = (2::rat) powi (bitlen ?n)" using b1 by (simp add: power_int_nonneg_exp)
  finally have hi: "a < 2 powi (exponent a + 1)" unfolding e by simp
  show ?thesis using lo hi by simp
next
  case False
  let ?y = "1 / a"
  let ?m = "\<lceil>?y\<rceil> - 1"
  have y: "1 < ?y" using False assms by simp
  have m: "0 < ?m" using y by linarith
  have my: "of_int ?m < ?y" "?y \<le> of_int ?m + 1" by linarith+
  note b = bitlen_bounds[OF m]
  have b1: "1 \<le> bitlen ?m" using bitlen_pos[OF m] .
  have e: "exponent a = - bitlen ?m" using False by (simp add: exponent_def)
  have "?y \<le> of_int (?m + 1)" using my by simp
  also have "\<dots> \<le> of_int (2 ^ nat (bitlen ?m))" using b by (simp only: of_int_le_iff) simp
  also have "\<dots> = (2::rat) powi (bitlen ?m)" using b1 by (simp add: power_int_nonneg_exp)
  finally have "1 / a \<le> 2 powi bitlen ?m" .
  then have "1 \<le> 2 powi bitlen ?m * a" using assms by (simp add: field_simps)
  then have lo: "2 powi (- bitlen ?m) \<le> a"
    by (simp add: power_int_minus field_simps)
  have "(2::rat) powi (bitlen ?m - 1) = of_int (2 ^ nat (bitlen ?m - 1))"
    using b1 by (simp add: power_int_nonneg_exp)
  also have "\<dots> \<le> of_int ?m" using b by (simp only: of_int_le_iff)
  also have "\<dots> < ?y" using my by simp
  finally have "2 powi (bitlen ?m - 1) < 1 / a" .
  then have "a * 2 powi (bitlen ?m - 1) < 1" using assms by (simp add: field_simps)
  then have "a < 1 / 2 powi (bitlen ?m - 1)"
    by (simp add: pos_less_divide_eq)
  then have "a < 2 powi (- (bitlen ?m - 1))"
    by (simp only: power_int_minus_divide)
  then have hi: "a < 2 powi (- bitlen ?m + 1)" by (simp add: algebra_simps)
  show ?thesis using lo hi unfolding e by simp
qed

lemma pow2_less_cancel: "(2::rat) powi m < 2 powi n \<Longrightarrow> m < n"
  using power_int_increasing[of n m "2::rat"] by (cases "m < n") auto

lemma exponent_unique:
  assumes "2 powi e \<le> a" "a < 2 powi (e + 1)"
  shows "exponent a = e"
proof -
  have pos: "0 < a" using assms(1) by (smt (verit) zero_less_power_int zero_less_numeral order_less_le_trans)
  note b = exponent_bounds[OF pos]
  have "(2::rat) powi e < 2 powi (exponent a + 1)" using assms(1) b by linarith
  then have 1: "e < exponent a + 1" by (rule pow2_less_cancel)
  have "(2::rat) powi exponent a < 2 powi (e + 1)" using assms(2) b by linarith
  then have 2: "exponent a < e + 1" by (rule pow2_less_cancel)
  show ?thesis using 1 2 by simp
qed

lemma round_half_even_of_int [simp]: "round_half_even (of_int m) = m"
  by (simp add: round_half_even_def)

lemma rnd_eq:
  assumes "2 powi e \<le> \<bar>x\<bar>" "\<bar>x\<bar> < 2 powi (e + 1)"
  shows "rnd x = of_int (round_half_even (x / 2 powi (max e (- 1022) - 52))) * 2 powi (max e (- 1022) - 52)"
proof -
  have "x \<noteq> 0" using assms(1) by (smt (verit) abs_zero zero_less_power_int zero_less_numeral not_less)
  then show ?thesis
    using exponent_unique[OF assms] by (simp add: rnd_def quantum_def)
qed


lemma round_half_even_bounds:
  "of_int (round_half_even x) \<le> x + 1 / 2 \<and> x - 1 / 2 \<le> of_int (round_half_even x)"
  unfolding round_half_even_def Let_def
  by (auto; linarith)

lemma rnd_0 [simp]: "rnd 0 = 0"
  by (simp add: rnd_def)

text \<open>A double is left as it is, and every result of \<open>rnd\<close> is a double.\<close>

lemma rnd_representable:
  assumes "representable x"
  shows "rnd x = x"
proof (cases "x = 0")
  case True then show ?thesis by simp
next
  case False
  from assms obtain m q where x: "x = of_int m * 2 powi q" and m: "\<bar>m\<bar> \<le> 2 ^ 53" and q: "- 1074 \<le> q"
    unfolding representable_def by blast
  have m0: "m \<noteq> 0" using False x by auto
  have ax: "\<bar>x\<bar> = of_int \<bar>m\<bar> * 2 powi q" unfolding x by (simp add: abs_mult)
  have pos: "0 < \<bar>x\<bar>" using False by simp
  let ?e = "exponent \<bar>x\<bar>"
  let ?Q = "max ?e (- 1022) - 52"
  note b = exponent_bounds[OF pos]
  have "(of_int \<bar>m\<bar> :: rat) \<le> of_int (2 ^ 53)" using m by (simp only: of_int_le_iff)
  then have "\<bar>x\<bar> \<le> 2 ^ 53 * 2 powi q" unfolding ax by (simp add: mult_right_mono)
  also have "\<dots> = 2 powi (53 + q)" by (simp add: power_int_add)
  finally have up: "\<bar>x\<bar> \<le> 2 powi (53 + q)" .
  have "(2::rat) powi ?e < 2 powi (53 + q + 1)"
    using b up power_int_strict_increasing[of "53 + q" "53 + q + 1" "2::rat"] by linarith
  then have e: "?e \<le> 53 + q" using pow2_less_cancel by fastforce
  have int_mult: "\<exists>k. x / 2 powi ?Q = of_int k"
  proof (cases "?Q \<le> q")
    case True
    then have "x / 2 powi ?Q = of_int m * 2 powi (q - ?Q)"
      unfolding x by (simp add: power_int_diff)
    also have "\<dots> = of_int (m * 2 ^ nat (q - ?Q))" using True by (simp add: power_int_nonneg_exp)
    finally show ?thesis by blast
  next
    case F: False
    have eq: "?e = 53 + q" using F e q by (cases "?e \<le> - 1022") (simp_all add: max_def)
    have Q: "?Q = q + 1" using eq q by (simp add: max_def)
    have "2 powi (53 + q) \<le> \<bar>x\<bar>" using b eq by simp
    with up have "\<bar>x\<bar> = 2 powi (53 + q)" by simp
    then have "x = 2 powi (53 + q) \<or> x = - (2 powi (53 + q))" by (auto simp: abs_if split: if_splits)
    moreover have "(2::rat) powi (53 + q) / 2 powi (q + 1) = of_int (2 ^ 52)"
      by (simp add: power_int_add field_simps)
    ultimately have "x / 2 powi (q + 1) = of_int (2 ^ 52) \<or> x / 2 powi (q + 1) = of_int (- (2 ^ 52))"
      by auto
    then show ?thesis unfolding Q by blast
  qed
  then obtain k where k: "x / 2 powi ?Q = of_int k" by blast
  have "rnd x = of_int k * 2 powi ?Q"
    using False by (simp add: rnd_def quantum_def k)
  also have "\<dots> = x" using k by (simp add: field_simps)
  finally show ?thesis .
qed

lemma representable_of_int: "\<bar>n\<bar> \<le> 2 ^ 53 \<Longrightarrow> representable (of_int n)"
  unfolding representable_def by (rule exI[of _ n], rule exI[of _ 0]) simp

lemma rnd_of_int: "\<bar>n\<bar> \<le> 2 ^ 53 \<Longrightarrow> rnd (of_int n) = of_int n"
  by (rule rnd_representable) (rule representable_of_int)

lemma rnd_numeral [simp]: "(numeral k :: int) \<le> 2 ^ 53 \<Longrightarrow> rnd (numeral k) = numeral k"
  using rnd_of_int[of "numeral k"] by simp

lemma rnd_1 [simp]: "rnd 1 = 1"
  using rnd_of_int[of 1] by simp


lemma representable_0 [simp]: "representable 0"
  unfolding representable_def by (rule exI[of _ 0], rule exI[of _ 0]) simp

lemma representable_rnd: "representable (rnd x)"
proof (cases "x = 0")
  case True then show ?thesis by simp
next
  case False
  then have pos: "0 < \<bar>x\<bar>" by simp
  define Q where "Q = max (exponent \<bar>x\<bar>) (- 1022) - 52"
  define k where "k = round_half_even (x / 2 powi Q)"
  note b = exponent_bounds[OF pos]
  have Q: "- 1074 \<le> Q" by (simp add: Q_def)
  have "exponent \<bar>x\<bar> + 1 \<le> Q + 53" by (simp add: Q_def)
  then have "(2::rat) powi (exponent \<bar>x\<bar> + 1) \<le> 2 powi (Q + 53)"
    by (intro power_int_increasing) simp_all
  then have "\<bar>x\<bar> < 2 powi (Q + 53)" using b by linarith
  also have "\<dots> = 2 powi Q * 2 powi 53" by (subst power_int_add) simp_all
  finally have "\<bar>x\<bar> / 2 powi Q < 2 ^ 53" by (simp add: pos_divide_less_eq mult.commute)
  then have ay: "\<bar>x / 2 powi Q\<bar> < 2 ^ 53" by (simp add: abs_divide power_int_abs)
  note rb = round_half_even_bounds[of "x / 2 powi Q"]
  have "\<bar>(of_int k :: rat)\<bar> < 2 ^ 53 + 1" using rb ay unfolding k_def by (simp add: abs_if split: if_splits)
  then have "(of_int \<bar>k\<bar> :: rat) < of_int (2 ^ 53 + 1)" by simp
  then have "\<bar>k\<bar> < 2 ^ 53 + 1" by (simp only: of_int_less_iff)
  then have k: "\<bar>k\<bar> \<le> 2 ^ 53" by simp
  have "rnd x = of_int k * 2 powi Q" using False by (simp add: rnd_def quantum_def k_def Q_def)
  then show ?thesis unfolding representable_def using k Q by blast
qed

lemma representable_iff: "representable x \<longleftrightarrow> rnd x = x"
  using rnd_representable[of x] representable_rnd[of x] by auto

lemma representable_minus_one:
  assumes "representable y" "1 \<le> y" "y \<le> 2 ^ 53"
  shows "representable (y - 1)"
proof -
  from assms(1) obtain m q where y: "y = of_int m * 2 powi q" and m: "\<bar>m\<bar> \<le> 2 ^ 53" and q: "- 1074 \<le> q"
    unfolding representable_def by blast
  show ?thesis
  proof (cases "q \<le> 0")
    case True
    have p: "(2::rat) powi q * 2 ^ nat (- q) = 1"
      using True by (simp add: power_int_def field_simps)
    have "y - 1 = of_int (m - 2 ^ nat (- q)) * 2 powi q"
      unfolding y using p by (simp add: algebra_simps)
    moreover have "\<bar>m - 2 ^ nat (- q)\<bar> \<le> 2 ^ 53"
    proof -
      have "1 \<le> of_int m * (2::rat) powi q" using assms(2) y by simp
      then have "(2::rat) ^ nat (- q) \<le> of_int m * (2 powi q * 2 ^ nat (- q))"
        using mult_right_mono[of 1 "of_int m * (2::rat) powi q" "2 ^ nat (- q)"] by (simp add: mult.assoc)
      then have "(of_int (2 ^ nat (- q)) :: rat) \<le> of_int m" unfolding p by simp
      then have "2 ^ nat (- q) \<le> m" by (simp only: of_int_le_iff)
      moreover have "(0::int) \<le> 2 ^ nat (- q)" by simp
      ultimately show ?thesis using m by linarith
    qed
    ultimately show ?thesis unfolding representable_def using q by blast
  next
    case False
    then have "y = of_int (m * 2 ^ nat q)" unfolding y by (simp add: power_int_nonneg_exp)
    then obtain N :: int where N: "y = of_int N" by blast
    have "1 \<le> N" "N \<le> 2 ^ 53" using assms(2,3) unfolding N by (simp_all only: flip: of_int_le_iff[where 'a=rat]) simp_all
    then have "\<bar>N - 1\<bar> \<le> 2 ^ 53" by simp
    from representable_of_int[OF this] show ?thesis unfolding N by simp
  qed
qed

lemma round_half_even_eqI:
  assumes "\<bar>x - of_int k\<bar> < 1 / 2"
  shows "round_half_even x = k"
proof -
  have "\<lfloor>x\<rfloor> = k \<or> \<lfloor>x\<rfloor> = k - 1" using assms by (auto simp: abs_if split: if_splits; linarith)
  then show ?thesis
    using assms unfolding round_half_even_def Let_def
    by (auto simp: abs_if split: if_splits)
qed

lemma rnd_eqI:
  assumes "2 powi e \<le> \<bar>x\<bar>" "\<bar>x\<bar> < 2 powi (e + 1)"
    and "\<bar>x / 2 powi (max e (- 1022) - 52) - of_int k\<bar> < 1 / 2"
  shows "rnd x = of_int k * 2 powi (max e (- 1022) - 52)"
  using rnd_eq[OF assms(1,2)] round_half_even_eqI[OF assms(3)] by simp

text \<open>Taking 1 from a double between 1 and \<open>2^53\<close> is exact.\<close>

lemma rnd_minus_one:
  assumes "rnd y = y" "1 \<le> y" "y \<le> 2 ^ 53"
  shows "rnd (y - 1) = y - 1"
  using representable_minus_one[of y] assms by (simp add: representable_iff)

lemma rnd_min:
  assumes "rnd a = a"
  shows "rnd (min a (rnd b)) = min a (rnd b)"
  using assms representable_rnd[of b] by (simp add: min_def representable_iff)

text \<open>The roundings that the examples need.\<close>

lemma rnd_1_200: "rnd (1 / 200) = 5764607523034235 / 1152921504606846976"
  using rnd_eqI[of "- 8" "1 / 200" 5764607523034235] by simp

lemma rnd_100_200: "rnd (144115188075855875 / 288230376151711744) = 1 / 2"
  using rnd_eqI[of "- 1" "144115188075855875 / 288230376151711744" 4503599627370496] by simp

lemma rnd_300_200: "rnd (432345564227567625 / 288230376151711744) = 3 / 2"
  using rnd_eqI[of 0 "432345564227567625 / 288230376151711744" 6755399441055744] by simp

lemma rnd_1_2: "rnd (1 / 2) = 1 / 2"
  using rnd_eqI[of "- 1" "1 / 2" 4503599627370496] by simp

lemma rnd_3_2: "rnd (3 / 2) = 3 / 2"
  using rnd_eqI[of 0 "3 / 2" 6755399441055744] by simp

lemma rnd_1_49: "rnd (1 / 49) = 5882252574524729 / 288230376151711744"
  using rnd_eqI[of "- 6" "1 / 49" 5882252574524729] by simp

lemma rnd_49_49: "rnd (288230376151711721 / 288230376151711744) = 9007199254740991 / 9007199254740992"
  using rnd_eqI[of "- 1" "288230376151711721 / 288230376151711744" 9007199254740991] by simp

lemma rnd_below_1: "rnd (9007199254740991 / 9007199254740992) = 9007199254740991 / 9007199254740992"
  using rnd_eqI[of "- 1" "9007199254740991 / 9007199254740992" 9007199254740991] by simp

lemma rnd_50_49: "rnd (147056314363118225 / 144115188075855872) = 4595509823847445 / 4503599627370496"
  using rnd_eqI[of 0 "147056314363118225 / 144115188075855872" 4595509823847445] by simp

lemma rnd_above_1: "rnd (4595509823847445 / 4503599627370496) = 4595509823847445 / 4503599627370496"
  using rnd_eqI[of 0 "4595509823847445 / 4503599627370496" 4595509823847445] by simp

section \<open>The rate limiter\<close>

lemma acquire_unfold:
  "acquire now rl =
     (let refilled = min (maxTokens rl)
                       (rnd (tokens rl + rnd (rnd (of_int (now - lastRefill rl)) * refillRate rl)))
      in if refilled \<ge> 1
         then (True, rl\<lparr>tokens := rnd (refilled - 1), lastRefill := now\<rparr>)
         else (False, rl\<lparr>tokens := refilled, lastRefill := now\<rparr>))"
  by (simp add: acquire_def refill_def Let_def)

lemma limiter_step_constants [simp]:
  "maxTokens (limiter_step c rl) = maxTokens rl"
  "refillRate (limiter_step c rl) = refillRate rl"
  by (cases c; simp add: acquire_def getAvailableTokens_def refill_def Let_def)+

lemma limiter_after_constants:
  "maxTokens (limiter_after calls rl) = maxTokens rl
   \<and> refillRate (limiter_after calls rl) = refillRate rl"
  unfolding limiter_after_def by (induction calls arbitrary: rl) simp_all

text \<open>
  Claim C5. Take a limiter built by the constructor (with \<open>windowMs \<noteq> 0\<close>) and used by any
  earlier calls. \<open>acquire\<close> at time \<open>now\<close> first refills: the quota becomes the minimum of
  the capacity and the old quota plus the elapsed time times \<open>maxRequests / windowMs\<close>, in
  the arithmetic of doubles (the quotient, the product and the sum are each rounded). If the
  refilled quota is at least 1 the call takes 1 from it and is admitted; otherwise it is
  denied and the limiter holds the refilled quota and the new refill time: the refill
  happens on a denial too. The elapsed time is exact when it is at most \<open>2^53\<close> ms, and the
  1 taken is exactly 1 when the capacity is a double that is at most \<open>2^53\<close>.
\<close>

theorem acquire_refills_then_takes:
  assumes "windowMs opts \<noteq> 0"
    and "rl = limiter_after calls (RateLimiter_new opts t0)"
    and "refilled = min (maxRequests opts)
                      (rnd (tokens rl + rnd (rnd (of_int (now - lastRefill rl))
                                              * rnd (maxRequests opts / windowMs opts))))"
  shows "acquire now rl =
           (if refilled \<ge> 1
            then (True, rl\<lparr>tokens := rnd (refilled - 1), lastRefill := now\<rparr>)
            else (False, rl\<lparr>tokens := refilled, lastRefill := now\<rparr>))
         \<and> (\<bar>now - lastRefill rl\<bar> \<le> 2 ^ 53
              \<longrightarrow> rnd (of_int (now - lastRefill rl)) = of_int (now - lastRefill rl))
         \<and> (rnd (maxRequests opts) = maxRequests opts \<and> maxRequests opts \<le> 2 ^ 53 \<and> 1 \<le> refilled
              \<longrightarrow> rnd (refilled - 1) = refilled - 1)"
proof (intro conjI impI)
  have c: "maxTokens rl = maxRequests opts" "refillRate rl = rnd (maxRequests opts / windowMs opts)"
    using limiter_after_constants[of calls "RateLimiter_new opts t0"] assms(2)
    by (simp_all add: RateLimiter_new_def)
  then show "acquire now rl =
           (if refilled \<ge> 1
            then (True, rl\<lparr>tokens := rnd (refilled - 1), lastRefill := now\<rparr>)
            else (False, rl\<lparr>tokens := refilled, lastRefill := now\<rparr>))"
    using assms(3) by (simp add: acquire_unfold Let_def)
next
  assume "\<bar>now - lastRefill rl\<bar> \<le> 2 ^ 53"
  then show "rnd (of_int (now - lastRefill rl)) = of_int (now - lastRefill rl)"
    by (rule rnd_of_int)
next
  assume a: "rnd (maxRequests opts) = maxRequests opts \<and> maxRequests opts \<le> 2 ^ 53 \<and> 1 \<le> refilled"
  have "rnd refilled = refilled"
    unfolding assms(3) using a by (intro rnd_min) simp
  moreover have "refilled \<le> maxRequests opts" unfolding assms(3) by (rule min.cobounded1)
  then have "refilled \<le> 2 ^ 53" using a by linarith
  ultimately show "rnd (refilled - 1) = refilled - 1"
    using a by (intro rnd_minus_one) simp_all
qed

theorem acquire_refills_then_takes_witness:
  "windowMs rl_test_options \<noteq> 0
   \<and> acquire 100 (limiter_after [call_acquire 0, call_acquire 0, call_acquire 0, call_acquire 0,
                                  call_acquire 0, call_getAvailableTokens 0]
                     (RateLimiter_new rl_test_options 0))
       = (False, \<lparr>tokens = 1 / 2, lastRefill = 100, maxTokens = 5, refillRate = rnd (1 / 200)\<rparr>)
   \<and> acquire 300 (limiter_after [call_acquire 0, call_acquire 0, call_acquire 0, call_acquire 0,
                                  call_acquire 0, call_getAvailableTokens 0]
                     (RateLimiter_new rl_test_options 0))
       = (True, \<lparr>tokens = 1 / 2, lastRefill = 300, maxTokens = 5, refillRate = rnd (1 / 200)\<rparr>)
   \<and> windowMs tight_options \<noteq> 0
   \<and> acquire 49 (limiter_after [call_acquire 0] (RateLimiter_new tight_options 0))
       = (False, \<lparr>tokens = 9007199254740991 / 9007199254740992, lastRefill = 49, maxTokens = 1,
                   refillRate = rnd (1 / 49)\<rparr>)
   \<and> acquire 50 (limiter_after [call_acquire 0] (RateLimiter_new tight_options 0))
       = (True, \<lparr>tokens = 0, lastRefill = 50, maxTokens = 1, refillRate = rnd (1 / 49)\<rparr>)"
proof -
  let ?calls = "[call_acquire 0, call_acquire 0, call_acquire 0, call_acquire 0,
                 call_acquire 0, call_getAvailableTokens 0]"
  have w: "windowMs rl_test_options \<noteq> 0" by (simp add: rl_test_options_def)
  have rl: "limiter_after ?calls (RateLimiter_new rl_test_options 0)
            = \<lparr>tokens = 0, lastRefill = 0, maxTokens = 5, refillRate = rnd (1 / 200)\<rparr>"
    by (simp add: limiter_after_def acquire_def getAvailableTokens_def refill_def Let_def
        RateLimiter_new_def rl_test_options_def)
  have w': "windowMs tight_options \<noteq> 0" by (simp add: tight_options_def)
  have rl': "limiter_after [call_acquire 0] (RateLimiter_new tight_options 0)
            = \<lparr>tokens = 0, lastRefill = 0, maxTokens = 1, refillRate = rnd (1 / 49)\<rparr>"
    by (simp add: limiter_after_def acquire_def refill_def Let_def
        RateLimiter_new_def tight_options_def)
  have a: "acquire 100 (limiter_after ?calls (RateLimiter_new rl_test_options 0))
       = (False, \<lparr>tokens = 1 / 2, lastRefill = 100, maxTokens = 5, refillRate = rnd (1 / 200)\<rparr>)"
    using acquire_refills_then_takes[where calls="?calls" and ?t0.0=0 and now=100, OF w refl refl]
    by (simp add: rl) (simp add: rl_test_options_def rnd_1_200 rnd_100_200 rnd_1_2)
  have b: "acquire 300 (limiter_after ?calls (RateLimiter_new rl_test_options 0))
       = (True, \<lparr>tokens = 1 / 2, lastRefill = 300, maxTokens = 5, refillRate = rnd (1 / 200)\<rparr>)"
    using acquire_refills_then_takes[where calls="?calls" and ?t0.0=0 and now=300, OF w refl refl]
    by (simp add: rl) (simp add: rl_test_options_def rnd_1_200 rnd_300_200 rnd_3_2 rnd_1_2)
  have c: "acquire 49 (limiter_after [call_acquire 0] (RateLimiter_new tight_options 0))
       = (False, \<lparr>tokens = 9007199254740991 / 9007199254740992, lastRefill = 49, maxTokens = 1,
                   refillRate = rnd (1 / 49)\<rparr>)"
    using acquire_refills_then_takes[where calls="[call_acquire 0]" and ?t0.0=0 and now=49, OF w' refl refl]
    by (simp add: rl') (simp add: tight_options_def rnd_1_49 rnd_49_49 rnd_below_1)
  have d: "acquire 50 (limiter_after [call_acquire 0] (RateLimiter_new tight_options 0))
       = (True, \<lparr>tokens = 0, lastRefill = 50, maxTokens = 1, refillRate = rnd (1 / 49)\<rparr>)"
    using acquire_refills_then_takes[where calls="[call_acquire 0]" and ?t0.0=0 and now=50, OF w' refl refl]
    by (simp add: rl') (simp add: tight_options_def rnd_1_49 rnd_50_49 rnd_above_1)
  show ?thesis using w w' a b c d by simp
qed

section \<open>The retry loop of one provider\<close>

declare sendWithRetry_loop.simps [simp del]

lemma execute_cases:
  assumes "execute cb operation w = (r, cb', w')"
  shows "(state cb = Open \<and> clock w - lastFailureTime cb \<le> resetTimeout (cb_options cb)
          \<and> r = Inl (Error ''Circuit breaker is OPEN'') \<and> cb' = cb \<and> w' = w)
       \<or> (\<not> (state cb = Open \<and> clock w - lastFailureTime cb \<le> resetTimeout (cb_options cb))
          \<and> operation w = (r, w')
          \<and> cb' = (case r of Inr result \<Rightarrow> onSuccess (clock w') (admitted_breaker cb)
                             | Inl error \<Rightarrow> onFailure (clock w') (admitted_breaker cb)))"
proof (cases "state cb = Open \<and> clock w - lastFailureTime cb \<le> resetTimeout (cb_options cb)")
  case True
  then show ?thesis using assms by (simp add: execute_def)
next
  case False
  obtain x w1 where op: "operation w = (x, w1)" by (cases "operation w") auto
  show ?thesis using False assms op
    by (cases x) (auto simp: execute_def admitted_breaker_def Let_def)
qed

lemma invoke_world:
  "invoke provider message w = (r, w') \<Longrightarrow>
   delays w' = delays w
   \<and> invocations w' = invocations w @ [(provider_name provider, msg_id message, r)]
   \<and> r = fst (provider_sendEmail provider message w)"
  by (auto simp: invoke_def split: prod.splits)

lemma execute_invoke_delays:
  "execute cb (invoke provider message) w = (r, cb', w') \<Longrightarrow> delays w' = delays w"
  using execute_cases[of cb "invoke provider message" w r cb' w'] invoke_world[of provider message w r w']
  by auto

lemma incrementAttemptCount_statuses:
  "emailStatuses (incrementAttemptCount i svc)
     = (\<lambda>j. if j = i then map_option (bump 1) (emailStatuses svc j) else emailStatuses svc j)"
  by (auto simp: incrementAttemptCount_def bump_def split: option.splits)

lemma bump_bump: "map_option (bump n) (map_option (bump m) x) = map_option (bump (m + n)) x"
  by (cases x) (simp_all add: bump_def)

lemma bump_0: "map_option (bump 0) x = x"
  by (cases x) (simp_all add: bump_def)

text \<open>What one run of the retry loop does to the statuses and to the trace of delays.\<close>

lemma sendWithRetry_loop_effect:
  "sendWithRetry_loop tm ro message provider cb attempt svc w = (r, svc', w') \<Longrightarrow>
   \<exists>n. emailStatuses svc'
          = (\<lambda>j. if j = msg_id message then map_option (bump n) (emailStatuses svc j)
                 else emailStatuses svc j)
     \<and> delays w' = delays w @ map (backoff_delay ro) [attempt + 1..<attempt + n]
     \<and> (case r of
           Inl error \<Rightarrow> int (attempt + n) = max (int attempt) (maxAttempts ro)
         | Inr result \<Rightarrow> 1 \<le> n \<and> int (attempt + n) \<le> maxAttempts ro)"
proof (induction tm ro message provider cb attempt svc w arbitrary: r svc' w'
       rule: sendWithRetry_loop.induct)
  case (1 tm ro message provider cb attempt svc w)
  show ?case
  proof (cases "int attempt < maxAttempts ro")
    case False
    with "1.prems" have "r = Inl (Error (''Max attempts ('' @ show_int (maxAttempts ro) @ '') exceeded''))"
      "svc' = svc" "w' = w"
      by (simp_all add: sendWithRetry_loop.simps)
    then show ?thesis using False by (intro exI[of _ 0]) (auto simp: bump_0)
  next
    case True
    obtain x cb1 w1 where ex: "execute cb (invoke provider message) w = (x, cb1, w1)"
      by (cases "execute cb (invoke provider message) w") auto
    have d1: "delays w1 = delays w" using execute_invoke_delays[OF ex] .
    let ?svc1 = "incrementAttemptCount (msg_id message) svc"
    let ?svc2 = "?svc1\<lparr>circuitBreakers := (circuitBreakers ?svc1)(provider_name provider \<mapsto> cb1)\<rparr>"
    have st2: "emailStatuses ?svc2
                 = (\<lambda>j. if j = msg_id message then map_option (bump 1) (emailStatuses svc j)
                        else emailStatuses svc j)"
      by (simp add: incrementAttemptCount_statuses)
    show ?thesis
    proof (cases x)
      case (Inr result)
      with "1.prems" True ex have "r = Inr result" "svc' = ?svc2" "w' = w1"
        by (simp_all add: sendWithRetry_loop.simps Let_def)
      then show ?thesis using True d1 st2 by (intro exI[of _ 1]) simp
    next
      case (Inl error)
      show ?thesis
      proof (cases "int (attempt + 1) = maxAttempts ro")
        case last: True
        with "1.prems" True ex Inl have "r = Inl error" "svc' = ?svc2" "w' = w1"
          by (simp_all add: sendWithRetry_loop.simps Let_def)
        then show ?thesis using True last d1 st2 by (intro exI[of _ 1]) simp
      next
        case notlast: False
        let ?w2 = "delay tm (min (baseDelay ro * backoffFactor ro ^ (attempt + 1 - 1)) (maxDelay ro)) w1"
        from "1.prems" True ex Inl notlast
        have rec: "sendWithRetry_loop tm ro message provider cb1 (attempt + 1) ?svc2 ?w2 = (r, svc', w')"
          by (simp add: sendWithRetry_loop.simps[of tm ro message provider cb attempt] Let_def)
        from "1.IH"[OF True refl refl ex[symmetric] Inl refl refl refl _ rec] notlast
        obtain n where n:
          "emailStatuses svc'
             = (\<lambda>j. if j = msg_id message then map_option (bump n) (emailStatuses ?svc2 j)
                    else emailStatuses ?svc2 j)"
          "delays w' = delays ?w2 @ map (backoff_delay ro) [attempt + 1 + 1..<attempt + 1 + n]"
          "case r of
             Inl error \<Rightarrow> int (attempt + 1 + n) = max (int (attempt + 1)) (maxAttempts ro)
           | Inr result \<Rightarrow> 1 \<le> n \<and> int (attempt + 1 + n) \<le> maxAttempts ro"
          by auto
        have n1: "1 \<le> n" using n(3) True notlast by (cases r) auto
        have "[attempt + 1..<attempt + (n + 1)] = (attempt + 1) # [attempt + 1 + 1..<attempt + 1 + n]"
          using n1 by (simp add: upt_conv_Cons)
        then have dl: "delays w' = delays w @ map (backoff_delay ro) [attempt + 1..<attempt + (n + 1)]"
          using n(2) d1 by (simp add: delay_def backoff_delay_def)
        have stf: "emailStatuses svc'
             = (\<lambda>j. if j = msg_id message then map_option (bump (n + 1)) (emailStatuses svc j)
                    else emailStatuses svc j)"
          unfolding n(1) st2 by (auto simp: bump_bump add.commute)
        have cs: "case r of
             Inl error \<Rightarrow> int (attempt + (n + 1)) = max (int attempt) (maxAttempts ro)
           | Inr result \<Rightarrow> 1 \<le> n + 1 \<and> int (attempt + (n + 1)) \<le> maxAttempts ro"
          using n(3) True notlast by (cases r) auto
        show ?thesis using dl stf cs by (intro exI[of _ "n + 1"]) simp
      qed
    qed
  qed
qed

lemma loop_done:
  "\<not> int attempt < maxAttempts ro \<Longrightarrow>
   sendWithRetry_loop tm ro message provider cb attempt svc w = (Inl (max_attempts_error ro), svc, w)"
  by (simp add: sendWithRetry_loop.simps max_attempts_error_def)

lemma loop_success:
  "int attempt < maxAttempts ro \<Longrightarrow>
   execute cb (invoke provider message) w = (Inr result, cb1, w1) \<Longrightarrow>
   sendWithRetry_loop tm ro message provider cb attempt svc w
     = (Inr result, after_try message provider cb1 svc, w1)"
  by (simp add: sendWithRetry_loop.simps Let_def after_try_def)

lemma loop_last:
  "int attempt < maxAttempts ro \<Longrightarrow> int (attempt + 1) = maxAttempts ro \<Longrightarrow>
   execute cb (invoke provider message) w = (Inl error, cb1, w1) \<Longrightarrow>
   sendWithRetry_loop tm ro message provider cb attempt svc w
     = (Inl error, after_try message provider cb1 svc, w1)"
  by (simp add: sendWithRetry_loop.simps Let_def after_try_def)

lemma loop_retry:
  "int (attempt + 1) < maxAttempts ro \<Longrightarrow>
   execute cb (invoke provider message) w = (Inl error, cb1, w1) \<Longrightarrow>
   sendWithRetry_loop tm ro message provider cb attempt svc w
     = sendWithRetry_loop tm ro message provider cb1 (attempt + 1)
         (after_try message provider cb1 svc) (delay tm (backoff_delay ro (attempt + 1)) w1)"
  by (simp add: sendWithRetry_loop.simps[of tm ro message provider cb attempt] Let_def after_try_def
      backoff_delay_def)

text \<open>An induction rule for properties of one run of the retry loop.\<close>

lemma sendWithRetry_loop_run_induct [consumes 1, case_names stop success final retry]:
  assumes run: "sendWithRetry_loop tm ro message provider cb attempt svc w = (r, svc', w')"
    and stop: "\<And>cb attempt svc w. \<not> int attempt < maxAttempts ro \<Longrightarrow>
                 P cb attempt svc w (Inl (max_attempts_error ro)) svc w"
    and success: "\<And>cb attempt svc w result cb1 w1.
                 int attempt < maxAttempts ro \<Longrightarrow>
                 execute cb (invoke provider message) w = (Inr result, cb1, w1) \<Longrightarrow>
                 P cb attempt svc w (Inr result) (after_try message provider cb1 svc) w1"
    and final: "\<And>cb attempt svc w error cb1 w1.
                 int attempt < maxAttempts ro \<Longrightarrow> int (attempt + 1) = maxAttempts ro \<Longrightarrow>
                 execute cb (invoke provider message) w = (Inl error, cb1, w1) \<Longrightarrow>
                 P cb attempt svc w (Inl error) (after_try message provider cb1 svc) w1"
    and retry: "\<And>cb attempt svc w error cb1 w1 r svc' w'.
                 int (attempt + 1) < maxAttempts ro \<Longrightarrow>
                 execute cb (invoke provider message) w = (Inl error, cb1, w1) \<Longrightarrow>
                 sendWithRetry_loop tm ro message provider cb1 (attempt + 1)
                   (after_try message provider cb1 svc) (delay tm (backoff_delay ro (attempt + 1)) w1)
                   = (r, svc', w') \<Longrightarrow>
                 P cb1 (attempt + 1) (after_try message provider cb1 svc)
                   (delay tm (backoff_delay ro (attempt + 1)) w1) r svc' w' \<Longrightarrow>
                 P cb attempt svc w r svc' w'"
  shows "P cb attempt svc w r svc' w'"
  using run
proof (induction "nat (maxAttempts ro - int attempt)" arbitrary: cb attempt svc w)
  case 0
  then have "\<not> int attempt < maxAttempts ro" by simp
  with "0.prems" stop show ?case by (simp add: loop_done)
next
  case (Suc k)
  then have lt: "int attempt < maxAttempts ro" by simp
  obtain x cb1 w1 where ex: "execute cb (invoke provider message) w = (x, cb1, w1)"
    by (cases "execute cb (invoke provider message) w") auto
  show ?case
  proof (cases x)
    case (Inr result)
    from Suc.prems have "r = Inr result" "svc' = after_try message provider cb1 svc" "w' = w1"
      using loop_success[OF lt ex[unfolded Inr]] by simp_all
    then show ?thesis using success[OF lt ex[unfolded Inr]] by simp
  next
    case (Inl error)
    show ?thesis
    proof (cases "int (attempt + 1) = maxAttempts ro")
      case True
      from Suc.prems have "r = Inl error" "svc' = after_try message provider cb1 svc" "w' = w1"
        using loop_last[OF lt True ex[unfolded Inl]] by simp_all
      then show ?thesis using final[OF lt True ex[unfolded Inl]] by simp
    next
      case False
      then have lt1: "int (attempt + 1) < maxAttempts ro" using lt by simp
      have k: "k = nat (maxAttempts ro - int (attempt + 1))" using Suc.hyps(2) by simp
      from Suc.prems have rec:
        "sendWithRetry_loop tm ro message provider cb1 (attempt + 1)
           (after_try message provider cb1 svc) (delay tm (backoff_delay ro (attempt + 1)) w1)
         = (r, svc', w')"
        using loop_retry[OF lt1 ex[unfolded Inl]] by simp
      from retry[OF lt1 ex[unfolded Inl] rec Suc.hyps(1)[OF k rec]] show ?thesis .
    qed
  qed
qed

lemma after_try_frame:
  "after_try message provider cb1 svc
     = svc\<lparr>circuitBreakers := (circuitBreakers svc)(provider_name provider \<mapsto> cb1),
           emailStatuses := emailStatuses (incrementAttemptCount (msg_id message) svc)\<rparr>"
  by (simp add: after_try_def incrementAttemptCount_def split: option.splits)

text \<open>The retry loop touches the breaker of its provider and the statuses, nothing else.\<close>

lemma sendWithRetry_loop_frame:
  assumes "sendWithRetry_loop tm ro message provider cb attempt svc w = (r, svc', w')"
  shows "svc' = svc\<lparr>circuitBreakers := circuitBreakers svc', emailStatuses := emailStatuses svc'\<rparr>"
  using assms
proof (induction rule: sendWithRetry_loop_run_induct)
  case (retry cb attempt svc w error cb1 w1 r svc' w')
  show ?case by (subst retry(4)) (simp add: after_try_frame)
qed (simp_all add: after_try_frame fun_upd_def)

lemma sendWithRetry_loop_breakers:
  assumes "sendWithRetry_loop tm ro message provider cb attempt svc w = (r, svc', w')"
  shows "(\<forall>name. name \<noteq> provider_name provider \<longrightarrow> circuitBreakers svc' name = circuitBreakers svc name)
         \<and> (circuitBreakers svc (provider_name provider) \<noteq> None
              \<longrightarrow> circuitBreakers svc' (provider_name provider) \<noteq> None)"
  using assms
  by (induction rule: sendWithRetry_loop_run_induct) (simp_all add: after_try_frame)

lemmas service_eval =
  sendEmail_def alreadySent_def allCircuitBreakersOpen_def getState_def
  acquire_def refill_def getRemainingTime_def
  updateStatus_def incrementAttemptCount_def error_message_def
  sendWithRetryAndFallback_def sendWithRetry_def sendWithRetry_loop.simps
  execute_def invoke_def delay_def onSuccess_def onFailure_def cleanupHistory_def
  addToQueue_def processQueue_def processQueue_loop_def
  attempts_or_0_def created_or_now_def or_now_def
  EmailService_new_def RateLimiter_new_def CircuitBreaker_new_def
  exact_timer_def calls_of_def scripted_provider_def provider_A_def createTestMessage_def
  at_time_def Let_def service_A_def first_send_def
  always_failing_def never_failing_def failing_first_def

text \<open>
  Claim C6. In every call of \<open>sendWithRetry\<close> some number \<open>n\<close> of tries is made, each
  counted in the status of the message. The waits of the call are exactly those after the
  tries 1 to \<open>n - 1\<close>, and the wait after try number \<open>attempt\<close> is
  \<open>min(baseDelay * backoffFactor^(attempt-1), maxDelay)\<close>. No wait follows try \<open>n\<close>: either
  it succeeded, or the call throws and \<open>n\<close> is \<open>maxAttempts\<close>, the final allowed try.
\<close>

theorem backoff_waits:
  "\<exists>n. emailStatuses (fst (snd (sendWithRetry tm message provider cb svc w))) (msg_id message)
          = map_option (bump n) (emailStatuses svc (msg_id message))
      \<and> delays (snd (snd (sendWithRetry tm message provider cb svc w)))
          = delays w @ map (backoff_delay (retry (options svc))) [1..<n]
      \<and> (case fst (sendWithRetry tm message provider cb svc w) of
            Inl error \<Rightarrow> int n = max 0 (maxAttempts (retry (options svc)))
          | Inr result \<Rightarrow> 1 \<le> n \<and> int n \<le> maxAttempts (retry (options svc)))"
proof -
  obtain r svc' w' where res: "sendWithRetry tm message provider cb svc w = (r, svc', w')"
    by (cases "sendWithRetry tm message provider cb svc w") auto
  from sendWithRetry_loop_effect[OF res[unfolded sendWithRetry_def]]
  obtain n where n:
    "emailStatuses svc'
       = (\<lambda>j. if j = msg_id message then map_option (bump n) (emailStatuses svc j)
              else emailStatuses svc j)"
    "delays w' = delays w @ map (backoff_delay (retry (options svc))) [0 + 1..<0 + n]"
    "case r of
       Inl error \<Rightarrow> int (0 + n) = max (int 0) (maxAttempts (retry (options svc)))
     | Inr result \<Rightarrow> 1 \<le> n \<and> int (0 + n) \<le> maxAttempts (retry (options svc))"
    by blast
  show ?thesis
    unfolding res using n by (intro exI[of _ n]) (cases r; simp)
qed

theorem backoff_waits_witness:
  "delays (snd (snd (sendWithRetry exact_timer (createTestMessage ''test-1'')
                       (provider_A always_failing)
                       (CircuitBreaker_new (circuitBreaker steep_backoff_options))
                       (service_A always_failing steep_backoff_options) (at_time 0))))
     = [100, 400, 1000, 1000]
   \<and> map (backoff_delay (retry (options (service_A always_failing steep_backoff_options)))) [1..<5]
     = [100, 400, 1000, 1000]
   \<and> maxAttempts (retry (options (service_A always_failing steep_backoff_options))) = 5"
  using backoff_waits[of exact_timer "createTestMessage ''test-1''" "provider_A always_failing"
      "CircuitBreaker_new (circuitBreaker steep_backoff_options)"
      "service_A always_failing steep_backoff_options" "at_time 0"]
  by (simp add: service_eval steep_backoff_options_def backoff_delay_def upt_rec)

section \<open>The fallback loop and the branches of sendEmail\<close>

lemma sendWithRetryAndFallback_loop_effect:
  "sendWithRetryAndFallback_loop tm message ps lastError svc w = (r, svc', w') \<Longrightarrow>
   (\<exists>n. emailStatuses svc'
          = (\<lambda>j. if j = msg_id message then map_option (bump n) (emailStatuses svc j)
                 else emailStatuses svc j))
   \<and> svc' = svc\<lparr>circuitBreakers := circuitBreakers svc', emailStatuses := emailStatuses svc'\<rparr>
   \<and> (\<forall>name. circuitBreakers svc name \<noteq> None \<longrightarrow> circuitBreakers svc' name \<noteq> None)
   \<and> (\<exists>result. r = Inr result)"
proof (induction ps arbitrary: lastError svc w)
  case Nil
  then show ?case by (auto simp: Let_def bump_0 intro!: exI[of _ 0])
next
  case (Cons provider rest)
  show ?case
  proof (cases "circuitBreakers svc (provider_name provider)")
    case None
    with Cons.prems have "sendWithRetryAndFallback_loop tm message rest lastError svc w = (r, svc', w')"
      by simp
    from Cons.IH[OF this] show ?thesis .
  next
    case (Some cb)
    obtain x svc1 w1 where one: "sendWithRetry tm message provider cb svc w = (x, svc1, w1)"
      by (cases "sendWithRetry tm message provider cb svc w") auto
    note loop = one[unfolded sendWithRetry_def]
    from sendWithRetry_loop_effect[OF loop] obtain n1 where n1:
      "emailStatuses svc1
         = (\<lambda>j. if j = msg_id message then map_option (bump n1) (emailStatuses svc j)
                else emailStatuses svc j)"
      by blast
    note fr1 = sendWithRetry_loop_frame[OF loop]
    note br1 = sendWithRetry_loop_breakers[OF loop]
    have keep1: "\<forall>name. circuitBreakers svc name \<noteq> None \<longrightarrow> circuitBreakers svc1 name \<noteq> None"
      using br1 by metis
    show ?thesis
    proof (cases x)
      case (Inr result)
      with Cons.prems Some one have "r = Inr result" "svc' = svc1" "w' = w1" by simp_all
      then show ?thesis using n1 fr1 keep1 by auto
    next
      case (Inl error)
      with Cons.prems Some one
      have rest: "sendWithRetryAndFallback_loop tm message rest (Some (error_message error)) svc1 w1
                  = (r, svc', w')"
        by simp
      from Cons.IH[OF rest] obtain n2 where n2:
        "emailStatuses svc'
           = (\<lambda>j. if j = msg_id message then map_option (bump n2) (emailStatuses svc1 j)
                  else emailStatuses svc1 j)"
        and fr2: "svc' = svc1\<lparr>circuitBreakers := circuitBreakers svc', emailStatuses := emailStatuses svc'\<rparr>"
        and keep2: "\<forall>name. circuitBreakers svc1 name \<noteq> None \<longrightarrow> circuitBreakers svc' name \<noteq> None"
        and res: "\<exists>result. r = Inr result"
        by blast
      have st: "emailStatuses svc'
           = (\<lambda>j. if j = msg_id message then map_option (bump (n1 + n2)) (emailStatuses svc j)
                  else emailStatuses svc j)"
        unfolding n2 n1 by (auto simp: bump_bump)
      have fr: "svc' = svc\<lparr>circuitBreakers := circuitBreakers svc', emailStatuses := emailStatuses svc'\<rparr>"
        by (subst fr2, subst fr1) simp
      show ?thesis using st fr keep1 keep2 res by blast
    qed
  qed
qed

lemma processQueue_loop_fields [simp]:
  "emailStatuses (processQueue_loop svc w) = emailStatuses svc"
  "sentEmails (processQueue_loop svc w) = sentEmails svc"
  "providers (processQueue_loop svc w) = providers svc"
  "emailQueue (processQueue_loop svc w) = emailQueue svc"
  "circuitBreakers (processQueue_loop svc w) = circuitBreakers svc"
  "options (processQueue_loop svc w) = options svc"
  by (simp_all add: processQueue_loop_def split: prod.splits)

lemma processQueue_fields [simp]:
  "emailStatuses (processQueue svc w) = emailStatuses svc"
  "sentEmails (processQueue svc w) = sentEmails svc"
  "providers (processQueue svc w) = providers svc"
  "emailQueue (processQueue svc w) = emailQueue svc"
  "circuitBreakers (processQueue svc w) = circuitBreakers svc"
  "options (processQueue svc w) = options svc"
  by (simp_all add: processQueue_def)

lemma addToQueue_fields [simp]:
  "emailStatuses (addToQueue message svc w) = (emailStatuses svc)(msg_id message \<mapsto> queued_status message w)"
  "sentEmails (addToQueue message svc w) = sentEmails svc"
  "providers (addToQueue message svc w) = providers svc"
  "emailQueue (addToQueue message svc w) = emailQueue svc @ [message]"
  "circuitBreakers (addToQueue message svc w) = circuitBreakers svc"
  "options (addToQueue message svc w) = options svc"
  by (simp_all add: addToQueue_def updateStatus_def queued_status_def Let_def)

lemma sendEmail_already:
  "alreadySent message svc w = Some result \<Longrightarrow> sendEmail tm message svc w = (Inr result, svc, w)"
  by (simp add: sendEmail_def)

lemma sendEmail_all_open:
  "alreadySent message svc w = None \<Longrightarrow> allCircuitBreakersOpen svc \<Longrightarrow>
   sendEmail tm message svc w = (Inr (all_unavailable w), addToQueue message svc w, w)"
  by (simp add: sendEmail_def all_unavailable_def)

lemma sendEmail_rate_limited:
  "alreadySent message svc w = None \<Longrightarrow> \<not> allCircuitBreakersOpen svc \<Longrightarrow>
   acquire (clock w) (rateLimiter svc) = (False, rl) \<Longrightarrow>
   sendEmail tm message svc w
     = (Inr \<lparr>res_success = False, res_messageId = None,
             res_error = Some (''Rate limit exceeded. Queued for processing in ''
                               @ show_number (getRemainingTime rl) @ ''ms''),
             res_provider = ''queue'', res_timestamp = clock w\<rparr>,
        addToQueue message (svc\<lparr>rateLimiter := rl\<rparr>) w, w)"
  by (simp add: sendEmail_def Let_def)

lemma sendEmail_delivery:
  assumes "alreadySent message svc w = None" "\<not> allCircuitBreakersOpen svc"
    "acquire (clock w) (rateLimiter svc) = (True, rl)"
    "sendWithRetryAndFallback tm message
       (updateStatus (msg_id message) (sending_status message w) (svc\<lparr>rateLimiter := rl\<rparr>)) w
     = (Inr result, svc2, w2)"
  shows "sendEmail tm message svc w
     = (Inr result,
        (svc2\<lparr>sentEmails := (if res_success result then insert (msg_id message) (sentEmails svc2)
                               else sentEmails svc2)\<rparr>)
          \<lparr>emailStatuses := (emailStatuses svc2)(msg_id message \<mapsto> final_status message result svc2 w2)\<rparr>,
        w2)"
  using assms
  by (simp add: sendEmail_def Let_def sending_status_def final_status_def updateStatus_def)

text \<open>The two first submissions, evaluated.\<close>

lemma first_send_sent:
  "first_send never_failing test_options = (Inr (accepted 100), sent_service, sent_world)"
  by (simp add: service_eval test_options_def accepted_def sent_service_def sent_world_def)

lemma first_send_failed:
  "first_send always_failing test_options
   = (Inr (failure_result ''Provider A: Network timeout or service unavailable'' failed_world),
      failed_service, failed_world)"
  by (simp add: service_eval test_options_def failure_result_def failed_service_def failed_world_def
      network_error_def numeral_3_eq_3)

lemma resend_failed:
  "sendEmail exact_timer (createTestMessage ''test-1'') failed_service failed_world
   = (Inr (all_unavailable failed_world),
      failed_service\<lparr>emailStatuses := [''test-1'' \<mapsto> queued_status (createTestMessage ''test-1'') failed_world],
                     emailQueue := [createTestMessage ''test-1''],
                     isProcessingQueue := True, queueTask := awaiting_delay (Some 5000)\<rparr>,
      failed_world)"
  by (simp add: service_eval test_options_def failed_service_def failed_world_def all_unavailable_def
      queued_status_def)


lemma first_send_flaky:
  "fst (first_send (failing_first 1) eager_breaker_options) = Inr (accepted 500)
   \<and> invocations (snd (snd (first_send (failing_first 1) eager_breaker_options)))
       = [(''Provider A'', ''test-1'', Inl network_error),
          (''Provider A'', ''test-1'', Inr (accepted 500))]
   \<and> map_option st_attempts
         (emailStatuses (fst (snd (first_send (failing_first 1) eager_breaker_options))) ''test-1'')
       = Some 3"
  by (simp add: service_eval eager_breaker_options_def accepted_def network_error_def)


section \<open>Idempotency\<close>

text \<open>
  What a successful submission records: the identifier in the set of sent identifiers, and a
  status \<open>sent\<close> with the provider of the result and the time of the clock at the end.
\<close>

lemma sendEmail_records_success:
  assumes "alreadySent message svc w = None"
    and "sendEmail tm message svc w = (Inr result, svc', w')"
    and "res_success result"
  shows "msg_id message \<in> sentEmails svc'
         \<and> (\<exists>st. emailStatuses svc' (msg_id message) = Some st
                \<and> st_status st = Sent
                \<and> st_provider st = Some (res_provider result)
                \<and> st_lastAttempt st = Some (clock w'))"
proof (cases "allCircuitBreakersOpen svc")
  case True
  with assms show ?thesis by (auto simp: sendEmail_all_open all_unavailable_def)
next
  case False
  obtain admitted rl where ac: "acquire (clock w) (rateLimiter svc) = (admitted, rl)"
    by (cases "acquire (clock w) (rateLimiter svc)") auto
  show ?thesis
  proof (cases admitted)
    case False
    with assms \<open>\<not> allCircuitBreakersOpen svc\<close> ac show ?thesis
      by (auto simp: sendEmail_rate_limited)
  next
    case True
    let ?svc1 = "updateStatus (msg_id message) (sending_status message w) (svc\<lparr>rateLimiter := rl\<rparr>)"
    obtain r svc2 w2 where d: "sendWithRetryAndFallback tm message ?svc1 w = (r, svc2, w2)"
      by (cases "sendWithRetryAndFallback tm message ?svc1 w") auto
    from sendWithRetryAndFallback_loop_effect[OF d[unfolded sendWithRetryAndFallback_def]]
    obtain result2 where r: "r = Inr result2" by blast
    have ac': "acquire (clock w) (rateLimiter svc) = (True, rl)" using ac True by simp
    from sendEmail_delivery[OF assms(1) \<open>\<not> allCircuitBreakersOpen svc\<close> ac' d[unfolded r]] assms(2,3)
    show ?thesis by (auto simp: final_status_def)
  qed
qed

text \<open>The two first submissions to the providers of the examples, evaluated.\<close>

lemma anonymous_send_eval:
  "anonymous_send =
     (Inr \<lparr>res_success = True, res_messageId = Some ''A-test-1'', res_error = None,
            res_provider = [], res_timestamp = 100\<rparr>,
      \<lparr>providers = [anonymous_provider], options = test_options,
       rateLimiter = \<lparr>tokens = 9, lastRefill = 0, maxTokens = 10, refillRate = rnd (1 / 500)\<rparr>,
       circuitBreakers = [''Provider A'' \<mapsto> CircuitBreaker_new (circuitBreaker test_options)],
       emailStatuses = [''test-1'' \<mapsto>
         \<lparr>st_messageId = ''test-1'', st_recipient = ''test@example.com'',
          st_subject = ''Test Subject'', st_status = Sent, st_attempts = 1,
          st_lastAttempt = Some 100, st_provider = Some [],
          st_error = None, st_created = 100\<rparr>],
       sentEmails = {''test-1''}, emailQueue = [], isProcessingQueue = False,
       queueTask = not_running\<rparr>,
      \<lparr>clock = 100, delays = [],
       invocations = [(''Provider A'', ''test-1'',
                       Inr \<lparr>res_success = True, res_messageId = Some ''A-test-1'', res_error = None,
                            res_provider = [], res_timestamp = 100\<rparr>)]\<rparr>)"
  by (simp add: anonymous_send_def service_eval test_options_def anonymous_provider_def)

lemma instant_send_eval:
  "instant_send =
     (Inr \<lparr>res_success = True, res_messageId = Some ''A-test-1'', res_error = None,
            res_provider = ''Provider A'', res_timestamp = 0\<rparr>,
      \<lparr>providers = [instant_provider], options = test_options,
       rateLimiter = \<lparr>tokens = 9, lastRefill = 0, maxTokens = 10, refillRate = rnd (1 / 500)\<rparr>,
       circuitBreakers = [''Provider A'' \<mapsto> CircuitBreaker_new (circuitBreaker test_options)],
       emailStatuses = [''test-1'' \<mapsto>
         \<lparr>st_messageId = ''test-1'', st_recipient = ''test@example.com'',
          st_subject = ''Test Subject'', st_status = Sent, st_attempts = 1,
          st_lastAttempt = Some 0, st_provider = Some ''Provider A'',
          st_error = None, st_created = 0\<rparr>],
       sentEmails = {''test-1''}, emailQueue = [], isProcessingQueue = False,
       queueTask = not_running\<rparr>,
      \<lparr>clock = 0, delays = [],
       invocations = [(''Provider A'', ''test-1'',
                       Inr \<lparr>res_success = True, res_messageId = Some ''A-test-1'', res_error = None,
                            res_provider = ''Provider A'', res_timestamp = 0\<rparr>)]\<rparr>)"
  by (simp add: instant_send_def service_eval test_options_def instant_provider_def)

text \<open>
  Claim C1 says that the submission of an identifier already recorded as a successful send
  returns the provider and the timestamp of the recorded success. The result is built with
  \<open>status.provider || 'unknown'\<close> and \<open>status.lastAttempt || Date.now()\<close>. When the provider
  has reported its success under the empty name, the empty name is recorded and the second
  submission reports \<open>unknown\<close>. When the success was recorded at time 0 of the clock, the
  second submission, made at time 7, reports the time 7.
\<close>

theorem idempotent_resend_counterexample:
  "fst anonymous_send
     = Inr \<lparr>res_success = True, res_messageId = Some ''A-test-1'', res_error = None,
             res_provider = [], res_timestamp = 100\<rparr>
   \<and> ''test-1'' \<in> sentEmails (fst (snd anonymous_send))
   \<and> map_option st_status (emailStatuses (fst (snd anonymous_send)) ''test-1'') = Some Sent
   \<and> map_option st_provider (emailStatuses (fst (snd anonymous_send)) ''test-1'') = Some (Some [])
   \<and> fst (sendEmail exact_timer (createTestMessage ''test-1'')
             (fst (snd anonymous_send)) (snd (snd anonymous_send)))
       = Inr \<lparr>res_success = True, res_messageId = Some ''test-1'', res_error = None,
               res_provider = ''unknown'', res_timestamp = 100\<rparr>
   \<and> ''unknown'' \<noteq> ([] :: string)
   \<and> map_option st_lastAttempt (emailStatuses (fst (snd instant_send)) ''test-1'') = Some (Some 0)
   \<and> map_option st_provider (emailStatuses (fst (snd instant_send)) ''test-1'')
       = Some (Some ''Provider A'')
   \<and> fst (sendEmail exact_timer (createTestMessage ''test-1'')
             (fst (snd instant_send)) ((snd (snd instant_send))\<lparr>clock := 7\<rparr>))
       = Inr \<lparr>res_success = True, res_messageId = Some ''test-1'', res_error = None,
               res_provider = ''Provider A'', res_timestamp = 7\<rparr>
   \<and> (7::int) \<noteq> 0"
  unfolding anonymous_send_eval instant_send_eval
  by (simp add: sendEmail_def alreadySent_def or_now_def createTestMessage_def)

lemma sent_recorded_alreadySent:
  assumes "sent_recorded svc" "alreadySent message svc w = None"
  shows "msg_id message \<notin> sentEmails svc"
proof
  assume "msg_id message \<in> sentEmails svc"
  with assms(1) obtain st where "emailStatuses svc (msg_id message) = Some st" "st_status st = Sent"
    unfolding sent_recorded_def by blast
  with \<open>msg_id message \<in> sentEmails svc\<close> assms(2) show False
    by (simp add: alreadySent_def)
qed

lemma sendEmail_keeps_sent_recorded:
  assumes "sent_recorded svc"
  shows "sent_recorded (fst (snd (sendEmail tm message svc w)))"
proof (cases "alreadySent message svc w")
  case (Some result)
  then show ?thesis using assms by (simp add: sendEmail_already)
next
  case None
  note unsent = sent_recorded_alreadySent[OF assms None]
  show ?thesis
  proof (cases "allCircuitBreakersOpen svc")
    case True
    with None show ?thesis using assms unsent
      by (auto simp: sendEmail_all_open sent_recorded_def)
  next
    case False
    obtain admitted rl where ac: "acquire (clock w) (rateLimiter svc) = (admitted, rl)"
      by (cases "acquire (clock w) (rateLimiter svc)") auto
    show ?thesis
    proof (cases admitted)
      case False
      with None \<open>\<not> allCircuitBreakersOpen svc\<close> ac show ?thesis using assms unsent
        by (auto simp: sendEmail_rate_limited sent_recorded_def)
    next
      case True
      let ?svc1 = "updateStatus (msg_id message) (sending_status message w) (svc\<lparr>rateLimiter := rl\<rparr>)"
      obtain r svc2 w2 where d: "sendWithRetryAndFallback tm message ?svc1 w = (r, svc2, w2)"
        by (cases "sendWithRetryAndFallback tm message ?svc1 w") auto
      from sendWithRetryAndFallback_loop_effect[OF d[unfolded sendWithRetryAndFallback_def]]
      obtain n result where
        st: "emailStatuses svc2
               = (\<lambda>j. if j = msg_id message then map_option (bump n) (emailStatuses ?svc1 j)
                      else emailStatuses ?svc1 j)"
        and fr: "svc2 = ?svc1\<lparr>circuitBreakers := circuitBreakers svc2, emailStatuses := emailStatuses svc2\<rparr>"
        and r: "r = Inr result"
        by blast
      have se: "sentEmails svc2 = sentEmails svc"
        by (subst fr) (simp add: updateStatus_def)
      have other: "\<And>i. i \<noteq> msg_id message \<Longrightarrow> emailStatuses svc2 i = emailStatuses svc i"
        using st by (simp add: updateStatus_def)
      have ac': "acquire (clock w) (rateLimiter svc) = (True, rl)" using ac True by simp
      show ?thesis
        unfolding sendEmail_delivery[OF None \<open>\<not> allCircuitBreakersOpen svc\<close> ac' d[unfolded r]]
        using assms unsent se other
        by (auto simp: sent_recorded_def final_status_def)
    qed
  qed
qed

lemma processQueue_resume_keeps_sent_recorded:
  assumes "sent_recorded svc"
  shows "sent_recorded (fst (processQueue_resume tm svc w))"
proof (cases "queueTask svc")
  case not_running
  then show ?thesis using assms by (simp add: processQueue_resume_def)
next
  case (awaiting_delay ms)
  then show ?thesis using assms by (simp add: processQueue_resume_def sent_recorded_def)
next
  case (awaiting_acquire admitted)
  show ?thesis
  proof (cases admitted)
    case False
    then show ?thesis using assms awaiting_acquire
      by (simp add: processQueue_resume_def sent_recorded_def)
  next
    case True
    show ?thesis
    proof (cases "emailQueue svc")
      case Nil
      then show ?thesis using assms awaiting_acquire True
        by (simp add: processQueue_resume_def sent_recorded_def)
    next
      case (Cons message rest)
      have "sent_recorded (svc\<lparr>emailQueue := rest\<rparr>)"
        using assms by (simp add: sent_recorded_def)
      from sendEmail_keeps_sent_recorded[OF this, of tm message w]
      show ?thesis using awaiting_acquire True Cons
        by (cases "sendEmail tm message (svc\<lparr>emailQueue := rest\<rparr>) w")
           (simp add: processQueue_resume_def sent_recorded_def)
    qed
  qed
qed

lemma step_keeps_sent_recorded:
  assumes "sent_recorded svc"
  shows "sent_recorded (fst (step tm e (svc, w)))"
proof (cases e)
  case (ev_sendEmail message)
  then show ?thesis using sendEmail_keeps_sent_recorded[OF assms, of tm message w]
    by (cases "sendEmail tm message svc w") simp
next
  case ev_resume
  then show ?thesis using processQueue_resume_keeps_sent_recorded[OF assms, of tm w] by simp
next
  case ev_resetCircuitBreakers
  then show ?thesis using assms by (simp add: resetCircuitBreakers_def sent_recorded_def)
next
  case ev_clear
  then show ?thesis by (simp add: clear_def resetCircuitBreakers_def sent_recorded_def)
next
  case (ev_clock t)
  then show ?thesis using assms by simp
qed

lemma run_keeps_sent_recorded:
  "sent_recorded (fst s) \<Longrightarrow> sent_recorded (fst (run tm es s))"
proof (induction es arbitrary: s)
  case Nil
  then show ?case by simp
next
  case (Cons e es)
  obtain svc w where s: "s = (svc, w)" by (cases s)
  from step_keeps_sent_recorded[of svc tm e w] Cons.prems s
  have "sent_recorded (fst (step tm e s))" by simp
  from Cons.IH[OF this] show ?case by simp
qed

lemma alreadySent_replay:
  assumes "msg_id message \<in> sentEmails svc" "emailStatuses svc (msg_id message) = Some st"
    "st_status st = Sent"
  shows "alreadySent message svc w = Some (replay message (st_provider st) (st_lastAttempt st) w)"
  using assms by (auto simp: alreadySent_def replay_def or_now_def split: option.splits)

text \<open>
  Claim C1, as the code has it. If the identifier of a message is in the set of sent
  identifiers and its status is \<open>sent\<close>, then \<open>sendEmail\<close> returns the success outcome
  whose provider is the provider of the status, or \<open>unknown\<close> when that is absent or the
  empty string, and whose timestamp is the time of the last attempt of the status, or the
  time of the clock when that is absent or 0; the service and the world are as they were:
  no provider is invoked, no timer is awaited, and the status with its attempt counter is
  unchanged. After a submission that has succeeded with the result \<open>result\<close> and ended in
  the world \<open>w1\<close>, the submission of the same message to the service it has left, at any
  time, returns that outcome for the provider of \<open>result\<close> and the time of \<open>w1\<close>, the
  time at which the status was recorded. In every service reached from the constructor,
  every identifier recorded as sent has a status \<open>sent\<close> with a provider and a time on
  record.
\<close>

theorem idempotent_resend:
  "(msg_id message \<in> sentEmails svc \<and> emailStatuses svc (msg_id message) = Some st
      \<and> st_status st = Sent
     \<longrightarrow> sendEmail tm message svc w
           = (Inr (replay message (st_provider st) (st_lastAttempt st) w), svc, w))
   \<and> (alreadySent message svc0 w0 = None
      \<and> sendEmail tm message svc0 w0 = (Inr result, svc1, w1) \<and> res_success result
     \<longrightarrow> sendEmail tm message svc1 w2
           = (Inr (replay message (Some (res_provider result)) (Some (clock w1)) w2), svc1, w2))
   \<and> sent_recorded (fst (run tm events (EmailService_new ps opts t0, w3)))"
proof (intro conjI impI)
  assume "msg_id message \<in> sentEmails svc \<and> emailStatuses svc (msg_id message) = Some st
      \<and> st_status st = Sent"
  then show "sendEmail tm message svc w
           = (Inr (replay message (st_provider st) (st_lastAttempt st) w), svc, w)"
    using alreadySent_replay[of message svc st w] by (simp add: sendEmail_already)
next
  assume a: "alreadySent message svc0 w0 = None
      \<and> sendEmail tm message svc0 w0 = (Inr result, svc1, w1) \<and> res_success result"
  then have a1: "alreadySent message svc0 w0 = None"
    and a2: "sendEmail tm message svc0 w0 = (Inr result, svc1, w1)" and a3: "res_success result"
    by simp_all
  from sendEmail_records_success[OF a1 a2 a3]
  obtain st where "msg_id message \<in> sentEmails svc1" "emailStatuses svc1 (msg_id message) = Some st"
    "st_status st = Sent" "st_provider st = Some (res_provider result)"
    "st_lastAttempt st = Some (clock w1)"
    by blast
  then show "sendEmail tm message svc1 w2
           = (Inr (replay message (Some (res_provider result)) (Some (clock w1)) w2), svc1, w2)"
    using alreadySent_replay[of message svc1 st w2]
    by (simp add: sendEmail_already)
next
  have "sent_recorded (fst (EmailService_new ps opts t0, w3))"
    by (simp add: sent_recorded_def EmailService_new_def)
  from run_keeps_sent_recorded[OF this]
  show "sent_recorded (fst (run tm events (EmailService_new ps opts t0, w3)))" .
qed

theorem idempotent_resend_witness:
  "msg_id (createTestMessage ''test-1'') \<in> sentEmails sent_service
   \<and> map_option st_status (emailStatuses sent_service ''test-1'') = Some Sent
   \<and> sendEmail exact_timer (createTestMessage ''test-1'') sent_service sent_world
       = (Inr \<lparr>res_success = True, res_messageId = Some ''test-1'', res_error = None,
               res_provider = ''Provider A'', res_timestamp = 100\<rparr>, sent_service, sent_world)
   \<and> alreadySent (createTestMessage ''test-1'') (service_A never_failing test_options) (at_time 0) = None
   \<and> first_send never_failing test_options = (Inr (accepted 100), sent_service, sent_world)
   \<and> res_success (accepted 100)
   \<and> sendEmail exact_timer (createTestMessage ''test-1'') sent_service (at_time 5000)
       = (Inr \<lparr>res_success = True, res_messageId = Some ''test-1'', res_error = None,
               res_provider = ''Provider A'', res_timestamp = 100\<rparr>, sent_service, at_time 5000)
   \<and> sent_recorded (fst (run exact_timer
         [ev_sendEmail (createTestMessage ''test-1''), ev_clock 5000,
          ev_sendEmail (createTestMessage ''test-1'')]
         (EmailService_new [provider_A never_failing] test_options 0, at_time 0)))"
proof -
  let ?m = "createTestMessage ''test-1''"
  let ?st = "\<lparr>st_messageId = ''test-1'', st_recipient = ''test@example.com'',
          st_subject = ''Test Subject'', st_status = Sent, st_attempts = 1,
          st_lastAttempt = Some 100, st_provider = Some ''Provider A'',
          st_error = None, st_created = 100\<rparr>"
  have h1: "msg_id ?m \<in> sentEmails sent_service"
    by (simp add: sent_service_def createTestMessage_def)
  have h2: "emailStatuses sent_service (msg_id ?m) = Some ?st"
    by (simp add: sent_service_def createTestMessage_def)
  have h3: "st_status ?st = Sent" "st_provider ?st = Some ''Provider A''" "st_lastAttempt ?st = Some 100"
    by simp_all
  have g1: "alreadySent ?m (service_A never_failing test_options) (at_time 0) = None"
    by (simp add: alreadySent_def service_A_def EmailService_new_def)
  have g2: "sendEmail exact_timer ?m (service_A never_failing test_options) (at_time 0)
            = (Inr (accepted 100), sent_service, sent_world)"
    using first_send_sent by (simp add: first_send_def)
  have g3: "res_success (accepted 100)" by (simp add: accepted_def)
  note T = idempotent_resend[where message="?m" and svc=sent_service and st="?st"
      and tm=exact_timer and w=sent_world
      and ?svc0.0="service_A never_failing test_options" and ?w0.0="at_time 0"
      and result="accepted 100" and ?svc1.0=sent_service and ?w1.0=sent_world and ?w2.0="at_time 5000"
      and events="[ev_sendEmail ?m, ev_clock 5000, ev_sendEmail ?m]"
      and ps="[provider_A never_failing]" and opts=test_options and ?t0.0=0 and ?w3.0="at_time 0"]
  from T h1 h2 h3 have A: "sendEmail exact_timer ?m sent_service sent_world
       = (Inr (replay ?m (Some ''Provider A'') (Some 100) sent_world), sent_service, sent_world)"
    by simp
  from T g1 g2 g3 have B: "sendEmail exact_timer ?m sent_service (at_time 5000)
       = (Inr (replay ?m (Some (res_provider (accepted 100))) (Some (clock sent_world)) (at_time 5000)),
          sent_service, at_time 5000)"
    by blast
  from T have C: "sent_recorded (fst (run exact_timer [ev_sendEmail ?m, ev_clock 5000, ev_sendEmail ?m]
         (EmailService_new [provider_A never_failing] test_options 0, at_time 0)))"
    by blast
  have r1: "replay ?m (Some ''Provider A'') (Some 100) sent_world
            = \<lparr>res_success = True, res_messageId = Some ''test-1'', res_error = None,
               res_provider = ''Provider A'', res_timestamp = 100\<rparr>"
    by (simp add: replay_def createTestMessage_def)
  have r2: "replay ?m (Some (res_provider (accepted 100))) (Some (clock sent_world)) (at_time 5000)
            = \<lparr>res_success = True, res_messageId = Some ''test-1'', res_error = None,
               res_provider = ''Provider A'', res_timestamp = 100\<rparr>"
    by (simp add: replay_def createTestMessage_def accepted_def sent_world_def)
  have s: "map_option st_status (emailStatuses sent_service ''test-1'') = Some Sent"
    by (simp add: sent_service_def)
  show ?thesis
    using h1 s A[unfolded r1] g1 first_send_sent g3 B[unfolded r2] C by blast
qed

section \<open>The attempt counter across submissions\<close>

lemma alreadySent_unsent: "msg_id message \<notin> sentEmails svc \<Longrightarrow> alreadySent message svc w = None"
  by (simp add: alreadySent_def)

lemma sendEmail_other_status:
  assumes "i \<noteq> msg_id message"
  shows "emailStatuses (fst (snd (sendEmail tm message svc w))) i = emailStatuses svc i"
proof (cases "alreadySent message svc w")
  case (Some result)
  then show ?thesis by (simp add: sendEmail_already)
next
  case None
  show ?thesis
  proof (cases "allCircuitBreakersOpen svc")
    case True
    with None assms show ?thesis by (simp add: sendEmail_all_open)
  next
    case False
    obtain admitted rl where ac: "acquire (clock w) (rateLimiter svc) = (admitted, rl)"
      by (cases "acquire (clock w) (rateLimiter svc)") auto
    show ?thesis
    proof (cases admitted)
      case False
      with None \<open>\<not> allCircuitBreakersOpen svc\<close> ac assms show ?thesis
        by (simp add: sendEmail_rate_limited)
    next
      case True
      let ?svc1 = "updateStatus (msg_id message) (sending_status message w) (svc\<lparr>rateLimiter := rl\<rparr>)"
      obtain r svc2 w2 where d: "sendWithRetryAndFallback tm message ?svc1 w = (r, svc2, w2)"
        by (cases "sendWithRetryAndFallback tm message ?svc1 w") auto
      from sendWithRetryAndFallback_loop_effect[OF d[unfolded sendWithRetryAndFallback_def]]
      obtain n result where
        st: "emailStatuses svc2
               = (\<lambda>j. if j = msg_id message then map_option (bump n) (emailStatuses ?svc1 j)
                      else emailStatuses ?svc1 j)"
        and r: "r = Inr result"
        by blast
      have ac': "acquire (clock w) (rateLimiter svc) = (True, rl)" using ac True by simp
      have "emailStatuses svc2 i = emailStatuses svc i"
        using st assms by (simp add: updateStatus_def)
      then show ?thesis
        using sendEmail_delivery[OF None \<open>\<not> allCircuitBreakersOpen svc\<close> ac' d[unfolded r]] assms
        by simp
    qed
  qed
qed

lemma sendEmail_forgets_status:
  assumes "msg_id message \<notin> sentEmails svc"
  shows "sendEmail tm message (svc\<lparr>emailStatuses := (emailStatuses svc)(msg_id message := old)\<rparr>) w
         = sendEmail tm message svc w"
proof -
  let ?svc' = "svc\<lparr>emailStatuses := (emailStatuses svc)(msg_id message := old)\<rparr>"
  have a: "alreadySent message ?svc' w = None" "alreadySent message svc w = None"
    using assms by (simp_all add: alreadySent_def)
  have o: "allCircuitBreakersOpen ?svc' = allCircuitBreakersOpen svc"
    by (simp add: allCircuitBreakersOpen_def)
  have q: "\<And>rl. addToQueue message (?svc'\<lparr>rateLimiter := rl\<rparr>) w = addToQueue message (svc\<lparr>rateLimiter := rl\<rparr>) w"
    by (simp add: addToQueue_def updateStatus_def Let_def)
  have q0: "addToQueue message ?svc' w = addToQueue message svc w"
    by (simp add: addToQueue_def updateStatus_def Let_def)
  have u: "\<And>rl st. updateStatus (msg_id message) st (?svc'\<lparr>rateLimiter := rl\<rparr>)
                  = updateStatus (msg_id message) st (svc\<lparr>rateLimiter := rl\<rparr>)"
    by (simp add: updateStatus_def)
  show ?thesis
    unfolding sendEmail_def a o q q0 u by simp
qed

lemma delivery_never_decreases:
  assumes "sendWithRetryAndFallback tm message svc w = (r, svc', w')"
    and "emailStatuses svc i = Some st"
  shows "\<exists>st'. emailStatuses svc' i = Some st' \<and> st_attempts st \<le> st_attempts st'"
proof -
  from sendWithRetryAndFallback_loop_effect[OF assms(1)[unfolded sendWithRetryAndFallback_def]]
  obtain n where "emailStatuses svc'
               = (\<lambda>j. if j = msg_id message then map_option (bump n) (emailStatuses svc j)
                      else emailStatuses svc j)"
    by blast
  then show ?thesis using assms(2) by (auto simp: bump_def)
qed

text \<open>
  Claim C8 says that the attempt counter of an identifier never decreases and is never
  reset. After a first submission in which the provider failed three times the counter of
  \<open>test-1\<close> is 3; the second submission of the same message finds the breaker open, puts the
  message in the queue and writes a status whose counter is 0.
\<close>

theorem attempt_counter_counterexample:
  "map_option st_attempts
     (emailStatuses (fst (snd (first_send always_failing test_options))) ''test-1'') = Some 3
   \<and> map_option st_attempts
       (emailStatuses
          (fst (snd (sendEmail exact_timer (createTestMessage ''test-1'')
                       (fst (snd (first_send always_failing test_options)))
                       (snd (snd (first_send always_failing test_options))))))
          ''test-1'') = Some 0"
  unfolding first_send_failed
  by (simp add: resend_failed) (simp add: failed_service_def queued_status_def)

text \<open>
  Claim C8, as the code has it. During the delivery (\<open>sendWithRetryAndFallback\<close>) no counter
  decreases. A call of \<open>sendEmail\<close> leaves the status of every other identifier as it was,
  and leaves the service as it was when the identifier is already recorded as sent. A
  submission of an identifier that is not in the set of sent identifiers does not depend on
  the status the identifier had: the counter starts again; when every breaker is open the
  status written is the queued one, with the counter 0.
\<close>

theorem attempt_counter_restarts:
  "(sendWithRetryAndFallback tm message svc w = (r, svc', w') \<and> emailStatuses svc i = Some st
      \<longrightarrow> (\<exists>st'. emailStatuses svc' i = Some st' \<and> st_attempts st \<le> st_attempts st'))
   \<and> (i \<noteq> msg_id message
      \<longrightarrow> emailStatuses (fst (snd (sendEmail tm message svc w))) i = emailStatuses svc i)
   \<and> (alreadySent message svc w \<noteq> None \<longrightarrow> fst (snd (sendEmail tm message svc w)) = svc)
   \<and> (msg_id message \<notin> sentEmails svc
      \<longrightarrow> sendEmail tm message (svc\<lparr>emailStatuses := (emailStatuses svc)(msg_id message := old)\<rparr>) w
          = sendEmail tm message svc w)
   \<and> (alreadySent message svc w = None \<and> allCircuitBreakersOpen svc
      \<longrightarrow> emailStatuses (fst (snd (sendEmail tm message svc w))) (msg_id message)
          = Some (queued_status message w)
        \<and> st_attempts (queued_status message w) = 0)"
  using delivery_never_decreases[of tm message svc w r svc' w' i st]
    sendEmail_other_status[of i message tm svc w]
    sendEmail_forgets_status[of message svc tm old w]
  by (auto simp: sendEmail_already sendEmail_all_open queued_status_def)

theorem attempt_counter_restarts_witness:
  "emailStatuses failed_service ''test-1'' \<noteq> None
   \<and> (\<exists>st'. emailStatuses
               (fst (snd (sendWithRetryAndFallback exact_timer (createTestMessage ''test-2'')
                            failed_service failed_world))) ''test-1'' = Some st'
            \<and> 3 \<le> st_attempts st')
   \<and> ''test-1'' \<noteq> msg_id (createTestMessage ''test-2'')
   \<and> emailStatuses
        (fst (snd (sendEmail exact_timer (createTestMessage ''test-2'') failed_service failed_world)))
        ''test-1''
       = emailStatuses failed_service ''test-1''
   \<and> alreadySent (createTestMessage ''test-1'') sent_service sent_world \<noteq> None
   \<and> fst (snd (sendEmail exact_timer (createTestMessage ''test-1'') sent_service sent_world))
       = sent_service
   \<and> msg_id (createTestMessage ''test-1'') \<notin> sentEmails failed_service
   \<and> sendEmail exact_timer (createTestMessage ''test-1'')
        (failed_service\<lparr>emailStatuses :=
           (emailStatuses failed_service)(msg_id (createTestMessage ''test-1'') := None)\<rparr>)
        failed_world
       = sendEmail exact_timer (createTestMessage ''test-1'') failed_service failed_world
   \<and> alreadySent (createTestMessage ''test-1'') failed_service failed_world = None
   \<and> allCircuitBreakersOpen failed_service
   \<and> emailStatuses
        (fst (snd (sendEmail exact_timer (createTestMessage ''test-1'') failed_service failed_world)))
        (msg_id (createTestMessage ''test-1''))
       = Some (queued_status (createTestMessage ''test-1'') failed_world)"
proof -
  let ?m1 = "createTestMessage ''test-1''"
  let ?m2 = "createTestMessage ''test-2''"
  let ?stf = "\<lparr>st_messageId = ''test-1'', st_recipient = ''test@example.com'',
          st_subject = ''Test Subject'', st_status = Failed, st_attempts = 3,
          st_lastAttempt = Some 600, st_provider = None,
          st_error = Some ''Provider A: Network timeout or service unavailable'',
          st_created = 600\<rparr>"
  let ?X = "sendWithRetryAndFallback exact_timer ?m2 failed_service failed_world"
  have a1: "?X = (fst ?X, fst (snd ?X), snd (snd ?X))" by simp
  have a2: "emailStatuses failed_service ''test-1'' = Some ?stf"
    by (simp add: failed_service_def)
  have b1: "''test-1'' \<noteq> msg_id ?m2" by (simp add: createTestMessage_def)
  have c1: "alreadySent ?m1 sent_service sent_world \<noteq> None"
    by (simp add: alreadySent_def sent_service_def createTestMessage_def)
  have d1: "msg_id ?m1 \<notin> sentEmails failed_service" by (simp add: failed_service_def)
  have e1: "alreadySent ?m1 failed_service failed_world = None"
    by (simp add: alreadySent_def failed_service_def)
  have e2: "allCircuitBreakersOpen failed_service"
    by (simp add: allCircuitBreakersOpen_def failed_service_def getState_def provider_A_def
        scripted_provider_def)
  note T1 = attempt_counter_restarts[where tm=exact_timer and message="?m2" and svc=failed_service
      and w=failed_world and r="fst ?X" and svc'="fst (snd ?X)" and w'="snd (snd ?X)"
      and i="''test-1''" and st="?stf" and old=None]
  note T2 = attempt_counter_restarts[where tm=exact_timer and message="?m1" and svc=sent_service
      and w=sent_world and r="fst ?X" and svc'="fst (snd ?X)" and w'="snd (snd ?X)"
      and i="''test-1''" and st="?stf" and old=None]
  note T3 = attempt_counter_restarts[where tm=exact_timer and message="?m1" and svc=failed_service
      and w=failed_world and r="fst ?X" and svc'="fst (snd ?X)" and w'="snd (snd ?X)"
      and i="''test-1''" and st="?stf" and old=None]
  from T1 a1 a2 have A: "\<exists>st'. emailStatuses (fst (snd ?X)) ''test-1'' = Some st'
                              \<and> st_attempts ?stf \<le> st_attempts st'"
    by blast
  then have A': "\<exists>st'. emailStatuses (fst (snd ?X)) ''test-1'' = Some st' \<and> 3 \<le> st_attempts st'"
    by simp
  from T1 b1 have B: "emailStatuses (fst (snd (sendEmail exact_timer ?m2 failed_service failed_world))) ''test-1''
                      = emailStatuses failed_service ''test-1''"
    by blast
  from T2 c1 have C: "fst (snd (sendEmail exact_timer ?m1 sent_service sent_world)) = sent_service"
    by blast
  from T3 d1 have D: "sendEmail exact_timer ?m1
        (failed_service\<lparr>emailStatuses := (emailStatuses failed_service)(msg_id ?m1 := None)\<rparr>)
        failed_world
       = sendEmail exact_timer ?m1 failed_service failed_world"
    by blast
  from T3 e1 e2 have E: "emailStatuses (fst (snd (sendEmail exact_timer ?m1 failed_service failed_world)))
        (msg_id ?m1) = Some (queued_status ?m1 failed_world)"
    by blast
  have a2': "emailStatuses failed_service ''test-1'' \<noteq> None" using a2 by simp
  show ?thesis using a2' A' b1 B c1 C d1 D e1 e2 E by blast
qed

section \<open>A service without providers\<close>

lemma never_sent_alreadySent: "never_sent svc \<Longrightarrow> alreadySent message svc w = None"
  by (simp add: never_sent_def alreadySent_def)

lemma no_providers_all_open: "providers svc = [] \<Longrightarrow> allCircuitBreakersOpen svc"
  by (simp add: allCircuitBreakersOpen_def)

lemma sendEmail_no_providers:
  assumes "providers svc = []" "alreadySent message svc w = None"
  shows "sendEmail tm message svc w = (Inr (all_unavailable w), addToQueue message svc w, w)"
  using assms by (simp add: sendEmail_all_open no_providers_all_open)

lemma sendEmail_keeps_never_sent:
  assumes "providers svc = []" "never_sent svc"
  shows "providers (fst (snd (sendEmail tm message svc w))) = []
         \<and> never_sent (fst (snd (sendEmail tm message svc w)))"
  using assms sendEmail_no_providers[OF assms(1) never_sent_alreadySent[OF assms(2)], of tm]
  by (auto simp: never_sent_def queued_status_def)

lemma processQueue_resume_keeps_never_sent:
  assumes "providers svc = []" "never_sent svc"
  shows "providers (fst (processQueue_resume tm svc w)) = []
         \<and> never_sent (fst (processQueue_resume tm svc w))"
proof (cases "queueTask svc")
  case not_running
  then show ?thesis using assms by (simp add: processQueue_resume_def)
next
  case (awaiting_delay ms)
  then show ?thesis using assms by (simp add: processQueue_resume_def never_sent_def)
next
  case (awaiting_acquire admitted)
  show ?thesis
  proof (cases admitted)
    case False
    then show ?thesis using assms awaiting_acquire
      by (simp add: processQueue_resume_def never_sent_def)
  next
    case True
    show ?thesis
    proof (cases "emailQueue svc")
      case Nil
      then show ?thesis using assms awaiting_acquire True
        by (simp add: processQueue_resume_def never_sent_def)
    next
      case (Cons message rest)
      let ?svc0 = "svc\<lparr>emailQueue := rest\<rparr>"
      have p0: "providers ?svc0 = []" "never_sent ?svc0"
        using assms by (simp_all add: never_sent_def)
      obtain r svc1 w1 where s: "sendEmail tm message ?svc0 w = (r, svc1, w1)"
        by (cases "sendEmail tm message ?svc0 w") auto
      from sendEmail_keeps_never_sent[OF p0, of tm message w] s
      have "providers svc1 = []" "never_sent svc1" by simp_all
      then show ?thesis using awaiting_acquire True Cons s
        by (simp add: processQueue_resume_def never_sent_def)
    qed
  qed
qed

lemma step_keeps_never_sent:
  assumes "providers svc = []" "never_sent svc"
  shows "providers (fst (step tm e (svc, w))) = [] \<and> never_sent (fst (step tm e (svc, w)))"
proof (cases e)
  case (ev_sendEmail message)
  then show ?thesis using sendEmail_keeps_never_sent[OF assms, of tm message w]
    by (cases "sendEmail tm message svc w") simp
next
  case ev_resume
  then show ?thesis using processQueue_resume_keeps_never_sent[OF assms, of tm w] by simp
next
  case ev_resetCircuitBreakers
  then show ?thesis using assms by (simp add: resetCircuitBreakers_def never_sent_def)
next
  case ev_clear
  then show ?thesis using assms by (simp add: clear_def resetCircuitBreakers_def never_sent_def)
next
  case (ev_clock t)
  then show ?thesis using assms by simp
qed

lemma run_keeps_never_sent:
  "providers (fst s) = [] \<Longrightarrow> never_sent (fst s) \<Longrightarrow>
   providers (fst (run tm es s)) = [] \<and> never_sent (fst (run tm es s))"
proof (induction es arbitrary: s)
  case Nil
  then show ?case by simp
next
  case (Cons e es)
  obtain svc w where s: "s = (svc, w)" by (cases s)
  from step_keeps_never_sent[of svc tm e w] Cons.prems s
  have "providers (fst (step tm e s)) = []" "never_sent (fst (step tm e s))" by simp_all
  from Cons.IH[OF this] show ?case by simp
qed

text \<open>
  Claim C10. With an empty list of providers the check that every breaker is open holds.
  For every message that is not already recorded as sent, \<open>sendEmail\<close> puts the message in
  the queue: it returns the outcome without success that says so, and the status of the
  message is \<open>queued\<close>. After any sequence of submissions, resumptions of the background
  task, resets, clearings and moves of the clock on a service constructed without
  providers, the set of sent identifiers is empty and no status is \<open>sent\<close>.
\<close>

theorem no_providers_always_queued:
  "(providers svc = []
      \<and> \<not> (msg_id message \<in> sentEmails svc
            \<and> (\<exists>st. emailStatuses svc (msg_id message) = Some st \<and> st_status st = Sent))
     \<longrightarrow> allCircuitBreakersOpen svc
         \<and> sendEmail tm message svc w = (Inr (all_unavailable w), addToQueue message svc w, w)
         \<and> res_success (all_unavailable w) = False
         \<and> emailStatuses (addToQueue message svc w) (msg_id message) = Some (queued_status message w)
         \<and> st_status (queued_status message w) = Queued)
   \<and> (never_sent (fst (run tm events (EmailService_new [] opts t0, w0)))
       \<and> providers (fst (run tm events (EmailService_new [] opts t0, w0))) = [])"
proof -
  have "providers (fst (EmailService_new [] opts t0, w0)) = []"
       "never_sent (fst (EmailService_new [] opts t0, w0))"
    by (simp_all add: EmailService_new_def never_sent_def)
  from run_keeps_never_sent[OF this, of tm events]
  have run: "never_sent (fst (run tm events (EmailService_new [] opts t0, w0)))
       \<and> providers (fst (run tm events (EmailService_new [] opts t0, w0))) = []"
    by simp
  have "providers svc = []
      \<and> \<not> (msg_id message \<in> sentEmails svc
            \<and> (\<exists>st. emailStatuses svc (msg_id message) = Some st \<and> st_status st = Sent))
     \<Longrightarrow> alreadySent message svc w = None"
    by (auto simp: alreadySent_def split: option.splits)
  then show ?thesis using run
    by (auto simp: sendEmail_no_providers no_providers_all_open all_unavailable_def queued_status_def)
qed

theorem no_providers_always_queued_witness:
  "providers (EmailService_new [] test_options 0) = []
   \<and> msg_id (createTestMessage ''test-1'') \<notin> sentEmails (EmailService_new [] test_options 0)
   \<and> allCircuitBreakersOpen (EmailService_new [] test_options 0)
   \<and> sendEmail exact_timer (createTestMessage ''test-1'') (EmailService_new [] test_options 0) (at_time 0)
       = (Inr (all_unavailable (at_time 0)),
          addToQueue (createTestMessage ''test-1'') (EmailService_new [] test_options 0) (at_time 0),
          at_time 0)
   \<and> emailStatuses
        (addToQueue (createTestMessage ''test-1'') (EmailService_new [] test_options 0) (at_time 0))
        (msg_id (createTestMessage ''test-1''))
       = Some (queued_status (createTestMessage ''test-1'') (at_time 0))
   \<and> never_sent (fst (run exact_timer
        [ev_sendEmail (createTestMessage ''test-1''), ev_resume, ev_clock 6000, ev_resume,
         ev_sendEmail (createTestMessage ''test-2''), ev_resetCircuitBreakers, ev_resume, ev_clear]
        (EmailService_new [] test_options 0, at_time 0)))"
proof -
  let ?svc = "EmailService_new [] test_options 0"
  let ?m = "createTestMessage ''test-1''"
  have h1: "providers ?svc = []" by (simp add: EmailService_new_def)
  have h2: "msg_id ?m \<notin> sentEmails ?svc" by (simp add: EmailService_new_def)
  note T = no_providers_always_queued[where svc="?svc" and message="?m" and tm=exact_timer
      and w="at_time 0" and opts=test_options and ?t0.0=0 and ?w0.0="at_time 0"
      and events="[ev_sendEmail (createTestMessage ''test-1''), ev_resume, ev_clock 6000, ev_resume,
         ev_sendEmail (createTestMessage ''test-2''), ev_resetCircuitBreakers, ev_resume, ev_clear]"]
  from T h1 h2 show ?thesis by blast
qed

section \<open>Counting the attempts\<close>

lemma length_cleanupHistory:
  "length (failureHistory (cleanupHistory now cb)) \<le> length (failureHistory cb)"
  by (simp add: cleanupHistory_def Let_def)

lemma onFailure_few_failures:
  assumes "state cb = Closed"
    and "int (length (failureHistory cb)) + 1 < failureThreshold (cb_options cb)"
  shows "state (onFailure now cb) = Closed"
    and "length (failureHistory (onFailure now cb)) \<le> length (failureHistory cb) + 1"
    and "cb_options (onFailure now cb) = cb_options cb"
proof -
  have "length (filter (\<lambda>time. now - time < monitoringWindow (cb_options cb)) (failureHistory cb @ [now]))
        \<le> length (failureHistory cb @ [now])"
    by (rule length_filter_le)
  then show "state (onFailure now cb) = Closed"
    using assms by (simp add: onFailure_state)
  show "length (failureHistory (onFailure now cb)) \<le> length (failureHistory cb) + 1"
    using length_cleanupHistory[of now "cb\<lparr>failures := failures cb + 1, lastFailureTime := now,
                                          failureHistory := failureHistory cb @ [now]\<rparr>"]
    by (simp add: onFailure_def Let_def)
  show "cb_options (onFailure now cb) = cb_options cb"
    by (simp add: onFailure_def Let_def)
qed

lemma execute_invoke_Closed:
  assumes "state cb = Closed"
  shows "execute cb (invoke provider message) w
         = (case fst (provider_sendEmail provider message w) of
              Inr result \<Rightarrow> (Inr result, onSuccess (clock (snd (invoke provider message w))) cb,
                             snd (invoke provider message w))
            | Inl error \<Rightarrow> (Inl error, onFailure (clock (snd (invoke provider message w))) cb,
                            snd (invoke provider message w)))"
  using assms
  by (cases "provider_sendEmail provider message w"; cases "fst (provider_sendEmail provider message w)")
     (simp_all add: execute_not_Open invoke_def)

lemma invoke_invocations:
  "invocations (snd (invoke provider message w))
     = invocations w @ [(provider_name provider, msg_id message, fst (provider_sendEmail provider message w))]"
  by (simp add: invoke_def split: prod.splits)

lemma delay_invocations [simp]: "invocations (delay tm ms w) = invocations w"
  by (simp add: delay_def)

lemma calls_of_invoke:
  "calls_of (provider_name provider) (snd (invoke provider message w))
     = calls_of (provider_name provider) w + 1"
  by (simp add: calls_of_def invoke_invocations)

lemma calls_of_delay [simp]: "calls_of name (delay tm ms w) = calls_of name w"
  by (simp add: calls_of_def)

lemma after_try_status:
  "emailStatuses (after_try message provider cb1 svc) (msg_id message)
     = map_option (bump 1) (emailStatuses svc (msg_id message))"
  by (simp add: after_try_frame incrementAttemptCount_statuses)

lemma loop_fails_then_succeeds:
  assumes "state cb = Closed"
    and "int (length (failureHistory cb)) + int k < failureThreshold (cb_options cb)"
    and "int (attempt + k) < maxAttempts ro"
    and "fails_then_succeeds provider message (calls_of (provider_name provider) w) k"
  shows "\<exists>result svc' w' calls.
           sendWithRetry_loop tm ro message provider cb attempt svc w = (Inr result, svc', w')
           \<and> emailStatuses svc' (msg_id message)
               = map_option (bump (k + 1)) (emailStatuses svc (msg_id message))
           \<and> invocations w' = invocations w @ calls
           \<and> length calls = k + 1
           \<and> (\<forall>entry \<in> set calls.
                 fst entry = provider_name provider \<and> fst (snd entry) = msg_id message)
           \<and> (\<forall>entry \<in> set (butlast calls). isl (snd (snd entry)))
           \<and> snd (snd (last calls)) = Inr result"
  using assms
proof (induction k arbitrary: cb attempt svc w)
  case 0
  let ?out = "fst (provider_sendEmail provider message w)"
  from "0.prems"(4) have "\<not> isl ?out" by (simp add: fails_then_succeeds_def)
  then obtain result where out: "?out = Inr result" by (cases ?out) auto
  have ex: "execute cb (invoke provider message) w
            = (Inr result, onSuccess (clock (snd (invoke provider message w))) cb,
               snd (invoke provider message w))"
    using execute_invoke_Closed[OF "0.prems"(1), of provider message w] out by simp
  have lt: "int attempt < maxAttempts ro" using "0.prems"(3) by simp
  show ?case
    unfolding loop_success[OF lt ex]
    by (simp add: after_try_status invoke_invocations out)
next
  case (Suc k)
  let ?out = "fst (provider_sendEmail provider message w)"
  let ?w1 = "snd (invoke provider message w)"
  let ?cb1 = "onFailure (clock ?w1) cb"
  let ?entry = "(provider_name provider, msg_id message, ?out)"
  from Suc.prems(4) have "isl ?out" by (simp add: fails_then_succeeds_def)
  then obtain error where out: "?out = Inl error" by (cases ?out) auto
  have ex: "execute cb (invoke provider message) w = (Inl error, ?cb1, ?w1)"
    using execute_invoke_Closed[OF Suc.prems(1), of provider message w] out by simp
  have few: "int (length (failureHistory cb)) + 1 < failureThreshold (cb_options cb)"
    using Suc.prems(2) by simp
  note f = onFailure_few_failures[OF Suc.prems(1) few, of "clock ?w1"]
  have lt1: "int (attempt + 1) < maxAttempts ro" using Suc.prems(3) by simp
  let ?svc1 = "after_try message provider ?cb1 svc"
  let ?w2 = "delay tm (backoff_delay ro (attempt + 1)) ?w1"
  have inv2: "invocations ?w2 = invocations w @ [?entry]"
    by (simp add: invoke_invocations)
  have p2: "int (length (failureHistory ?cb1)) + int k < failureThreshold (cb_options ?cb1)"
    using f(2,3) Suc.prems(2) by simp
  have p3: "int (attempt + 1 + k) < maxAttempts ro" using Suc.prems(3) by simp
  have c2: "calls_of (provider_name provider) ?w2 = calls_of (provider_name provider) w + 1"
    by (simp add: calls_of_invoke)
  have p4: "fails_then_succeeds provider message (calls_of (provider_name provider) ?w2) k"
    using Suc.prems(4) unfolding c2 fails_then_succeeds_def by auto
  from Suc.IH[OF f(1) p2 p3 p4, of ?svc1]
  obtain result svc' w' calls where r:
    "sendWithRetry_loop tm ro message provider ?cb1 (attempt + 1) ?svc1 ?w2 = (Inr result, svc', w')"
    "emailStatuses svc' (msg_id message)
       = map_option (bump (k + 1)) (emailStatuses ?svc1 (msg_id message))"
    "invocations w' = invocations ?w2 @ calls"
    "length calls = k + 1"
    "\<forall>entry \<in> set calls. fst entry = provider_name provider \<and> fst (snd entry) = msg_id message"
    "\<forall>entry \<in> set (butlast calls). isl (snd (snd entry))"
    "snd (snd (last calls)) = Inr result"
    by blast
  have ne: "calls \<noteq> []" using r(4) by auto
  have st: "emailStatuses svc' (msg_id message)
       = map_option (bump (Suc k + 1)) (emailStatuses svc (msg_id message))"
    using r(2) by (simp add: after_try_status bump_bump)
  have c1: "invocations w' = invocations w @ (?entry # calls)"
    using r(3) inv2 by simp
  have c2': "length (?entry # calls) = Suc k + 1" using r(4) by simp
  have c3: "\<forall>entry \<in> set (?entry # calls).
              fst entry = provider_name provider \<and> fst (snd entry) = msg_id message"
    using r(5) by simp
  have c4: "\<forall>entry \<in> set (butlast (?entry # calls)). isl (snd (snd entry))"
    using r(6) ne out by simp
  have c5: "snd (snd (last (?entry # calls))) = Inr result"
    using r(7) ne by simp
  show ?case
    unfolding loop_retry[OF lt1 ex]
    using r(1) st c1 c2' c3 c4 c5 by blast
qed

lemma execute_rejects:
  "rejects cb w \<Longrightarrow> execute cb operation w = (Inl (Error ''Circuit breaker is OPEN''), cb, w)"
  by (auto simp: execute_def rejects_def)

lemma execute_invoke_count:
  assumes "execute cb (invoke provider message) w = (x, cb1, w1)"
  shows "length (invocations w1) + (if rejects cb w then 1 else 0) = length (invocations w) + 1"
  using execute_cases[OF assms] invoke_world[of provider message w x w1]
  by (auto simp: rejects_def)

lemma try_start_Suc:
  assumes "try_start tm ro message provider s i = (cb, w)"
    and "execute cb (invoke provider message) w = (x, cb1, w1)"
  shows "try_start tm ro message provider s (Suc i) = (cb1, delay tm (backoff_delay ro (Suc i)) w1)"
  using assms by simp

lemma filter_upt_last:
  "length (filter P [a..<Suc b]) = length (filter P [a..<b]) + (if a \<le> b \<and> P b then 1 else 0)"
  by simp

lemma filter_upt_first:
  assumes "a < b"
  shows "length (filter P [a..<b]) = (if P a then 1 else 0) + length (filter P [Suc a..<b])"
  using assms by (simp add: upt_conv_Cons)

text \<open>One run of the retry loop, try by try.\<close>

lemma sendWithRetry_loop_tries:
  assumes "sendWithRetry_loop tm ro message provider cb attempt svc w = (r, svc', w')"
  shows "try_start tm ro message provider s0 attempt = (cb, w) \<longrightarrow> int attempt < maxAttempts ro \<longrightarrow>
         (\<exists>m cb'. 1 \<le> m \<and> int (attempt + m) \<le> maxAttempts ro
            \<and> try_outcome tm ro message provider s0 (attempt + m - 1) = (r, cb', w')
            \<and> circuitBreakers svc' (provider_name provider) = Some cb'
            \<and> (isl r \<longrightarrow> int (attempt + m) = maxAttempts ro)
            \<and> (\<forall>i. attempt \<le> i \<and> i < attempt + m - 1
                   \<longrightarrow> isl (fst (try_outcome tm ro message provider s0 i)))
            \<and> emailStatuses svc'
                 = (\<lambda>j. if j = msg_id message then map_option (bump m) (emailStatuses svc j)
                        else emailStatuses svc j)
            \<and> length (invocations w')
                 + length (filter (try_rejected tm ro message provider s0) [attempt..<attempt + m])
               = length (invocations w) + m)"
  using assms
proof (induction rule: sendWithRetry_loop_run_induct)
  case (stop cb attempt svc w)
  then show ?case by simp
next
  case (success cb attempt svc w result cb1 w1)
  show ?case
  proof (intro impI)
    assume s: "try_start tm ro message provider s0 attempt = (cb, w)"
    have o: "try_outcome tm ro message provider s0 attempt = (Inr result, cb1, w1)"
      using s success(2) by (simp add: try_outcome_def)
    have st: "emailStatuses (after_try message provider cb1 svc)
              = (\<lambda>j. if j = msg_id message then map_option (bump 1) (emailStatuses svc j)
                     else emailStatuses svc j)"
      by (simp add: after_try_frame incrementAttemptCount_statuses)
    have c: "length (invocations w1) + (if rejects cb w then 1 else 0) = length (invocations w) + 1"
      using execute_invoke_count[OF success(2)] .
    have rj: "try_rejected tm ro message provider s0 attempt = rejects cb w"
      using s by (simp add: try_rejected_def)
    show "\<exists>m cb'. 1 \<le> m \<and> int (attempt + m) \<le> maxAttempts ro
            \<and> try_outcome tm ro message provider s0 (attempt + m - 1) = (Inr result, cb', w1)
            \<and> circuitBreakers (after_try message provider cb1 svc) (provider_name provider) = Some cb'
            \<and> (isl (Inr result :: thrown + EmailResult) \<longrightarrow> int (attempt + m) = maxAttempts ro)
            \<and> (\<forall>i. attempt \<le> i \<and> i < attempt + m - 1
                   \<longrightarrow> isl (fst (try_outcome tm ro message provider s0 i)))
            \<and> emailStatuses (after_try message provider cb1 svc)
                 = (\<lambda>j. if j = msg_id message then map_option (bump m) (emailStatuses svc j)
                        else emailStatuses svc j)
            \<and> length (invocations w1)
                 + length (filter (try_rejected tm ro message provider s0) [attempt..<attempt + m])
               = length (invocations w) + m"
      using success(1) o st c rj
      by (intro exI[of _ 1] exI[of _ cb1]) (auto simp: after_try_frame)
  qed
next
  case (final cb attempt svc w error cb1 w1)
  show ?case
  proof (intro impI)
    assume s: "try_start tm ro message provider s0 attempt = (cb, w)"
    have o: "try_outcome tm ro message provider s0 attempt = (Inl error, cb1, w1)"
      using s final(3) by (simp add: try_outcome_def)
    have st: "emailStatuses (after_try message provider cb1 svc)
              = (\<lambda>j. if j = msg_id message then map_option (bump 1) (emailStatuses svc j)
                     else emailStatuses svc j)"
      by (simp add: after_try_frame incrementAttemptCount_statuses)
    have c: "length (invocations w1) + (if rejects cb w then 1 else 0) = length (invocations w) + 1"
      using execute_invoke_count[OF final(3)] .
    have rj: "try_rejected tm ro message provider s0 attempt = rejects cb w"
      using s by (simp add: try_rejected_def)
    show "\<exists>m cb'. 1 \<le> m \<and> int (attempt + m) \<le> maxAttempts ro
            \<and> try_outcome tm ro message provider s0 (attempt + m - 1) = (Inl error, cb', w1)
            \<and> circuitBreakers (after_try message provider cb1 svc) (provider_name provider) = Some cb'
            \<and> (isl (Inl error :: thrown + EmailResult) \<longrightarrow> int (attempt + m) = maxAttempts ro)
            \<and> (\<forall>i. attempt \<le> i \<and> i < attempt + m - 1
                   \<longrightarrow> isl (fst (try_outcome tm ro message provider s0 i)))
            \<and> emailStatuses (after_try message provider cb1 svc)
                 = (\<lambda>j. if j = msg_id message then map_option (bump m) (emailStatuses svc j)
                        else emailStatuses svc j)
            \<and> length (invocations w1)
                 + length (filter (try_rejected tm ro message provider s0) [attempt..<attempt + m])
               = length (invocations w) + m"
      using final(1,2) o st c rj
      by (intro exI[of _ 1] exI[of _ cb1]) (auto simp: after_try_frame)
  qed
next
  case (retry cb attempt svc w error cb1 w1 r svc' w')
  show ?case
  proof (intro impI)
    assume s: "try_start tm ro message provider s0 attempt = (cb, w)"
    let ?w2 = "delay tm (backoff_delay ro (attempt + 1)) w1"
    let ?svc1 = "after_try message provider cb1 svc"
    have o: "try_outcome tm ro message provider s0 attempt = (Inl error, cb1, w1)"
      using s retry(2) by (simp add: try_outcome_def)
    have s1: "try_start tm ro message provider s0 (attempt + 1) = (cb1, ?w2)"
      using try_start_Suc[OF s retry(2)] by simp
    from retry(4) s1 retry(1)
    obtain m cb' where m: "1 \<le> m" "int (attempt + 1 + m) \<le> maxAttempts ro"
      "try_outcome tm ro message provider s0 (attempt + 1 + m - 1) = (r, cb', w')"
      "circuitBreakers svc' (provider_name provider) = Some cb'"
      "isl r \<longrightarrow> int (attempt + 1 + m) = maxAttempts ro"
      "\<forall>i. attempt + 1 \<le> i \<and> i < attempt + 1 + m - 1
           \<longrightarrow> isl (fst (try_outcome tm ro message provider s0 i))"
      "emailStatuses svc'
         = (\<lambda>j. if j = msg_id message then map_option (bump m) (emailStatuses ?svc1 j)
                else emailStatuses ?svc1 j)"
      "length (invocations w')
         + length (filter (try_rejected tm ro message provider s0) [attempt + 1..<attempt + 1 + m])
       = length (invocations ?w2) + m"
      by auto
    have st1: "emailStatuses ?svc1
              = (\<lambda>j. if j = msg_id message then map_option (bump 1) (emailStatuses svc j)
                     else emailStatuses svc j)"
      by (simp add: after_try_frame incrementAttemptCount_statuses)
    have st: "emailStatuses svc'
         = (\<lambda>j. if j = msg_id message then map_option (bump (m + 1)) (emailStatuses svc j)
                else emailStatuses svc j)"
      unfolding m(7) st1 by (auto simp: bump_bump add.commute)
    have c: "length (invocations w1) + (if rejects cb w then 1 else 0) = length (invocations w) + 1"
      using execute_invoke_count[OF retry(2)] .
    have rj: "try_rejected tm ro message provider s0 attempt = rejects cb w"
      using s by (simp add: try_rejected_def)
    have f: "length (filter (try_rejected tm ro message provider s0) [attempt..<attempt + (m + 1)])
             = (if rejects cb w then 1 else 0)
               + length (filter (try_rejected tm ro message provider s0) [attempt + 1..<attempt + 1 + m])"
      using filter_upt_first[of attempt "attempt + (m + 1)" "try_rejected tm ro message provider s0"] rj
      by (simp add: add.commute add.left_commute)
    have cnt: "length (invocations w')
                 + length (filter (try_rejected tm ro message provider s0) [attempt..<attempt + (m + 1)])
               = length (invocations w) + (m + 1)"
      using m(8) c f by simp
    have earlier: "\<forall>i. attempt \<le> i \<and> i < attempt + (m + 1) - 1
                   \<longrightarrow> isl (fst (try_outcome tm ro message provider s0 i))"
    proof (intro allI impI)
      fix i assume i: "attempt \<le> i \<and> i < attempt + (m + 1) - 1"
      show "isl (fst (try_outcome tm ro message provider s0 i))"
      proof (cases "i = attempt")
        case True then show ?thesis using o by simp
      next
        case False
        then have "attempt + 1 \<le> i \<and> i < attempt + 1 + m - 1" using i by simp
        then show ?thesis using m(6) by blast
      qed
    qed
    have a: "attempt + (m + 1) - 1 = attempt + 1 + m - 1" by simp
    show "\<exists>m cb'. 1 \<le> m \<and> int (attempt + m) \<le> maxAttempts ro
            \<and> try_outcome tm ro message provider s0 (attempt + m - 1) = (r, cb', w')
            \<and> circuitBreakers svc' (provider_name provider) = Some cb'
            \<and> (isl r \<longrightarrow> int (attempt + m) = maxAttempts ro)
            \<and> (\<forall>i. attempt \<le> i \<and> i < attempt + m - 1
                   \<longrightarrow> isl (fst (try_outcome tm ro message provider s0 i)))
            \<and> emailStatuses svc'
                 = (\<lambda>j. if j = msg_id message then map_option (bump m) (emailStatuses svc j)
                        else emailStatuses svc j)
            \<and> length (invocations w')
                 + length (filter (try_rejected tm ro message provider s0) [attempt..<attempt + m])
               = length (invocations w) + m"
      apply (rule exI[of _ "m + 1"], rule exI[of _ cb'])
      using m(1,2,3,4,5) st cnt earlier unfolding a
      by (simp add: add.commute add.left_commute)
  qed
qed


lemma sendWithRetry_tries:
  assumes "sendWithRetry tm message provider cb svc w = (r, svc', w')"
    and "0 < maxAttempts (retry (options svc))"
  shows "\<exists>m cb'. 1 \<le> m \<and> int m \<le> maxAttempts (retry (options svc))
            \<and> try_outcome tm (retry (options svc)) message provider (cb, w) (m - 1) = (r, cb', w')
            \<and> circuitBreakers svc' (provider_name provider) = Some cb'
            \<and> (isl r \<longrightarrow> int m = maxAttempts (retry (options svc)))
            \<and> (\<forall>i. i < m - 1
                   \<longrightarrow> isl (fst (try_outcome tm (retry (options svc)) message provider (cb, w) i)))
            \<and> emailStatuses svc'
                 = (\<lambda>j. if j = msg_id message then map_option (bump m) (emailStatuses svc j)
                        else emailStatuses svc j)
            \<and> length (invocations w')
                 + rejected_tries tm (retry (options svc)) message provider (cb, w) m
               = length (invocations w) + m"
proof -
  have s: "try_start tm (retry (options svc)) message provider (cb, w) 0 = (cb, w)" by simp
  have lt: "int 0 < maxAttempts (retry (options svc))" using assms(2) by simp
  from sendWithRetry_loop_tries[OF assms(1)[unfolded sendWithRetry_def], of "(cb, w)"] s lt
  show ?thesis by (simp add: rejected_tries_def)
qed

text \<open>
  The invocations of one run of the retry loop are invocations of its provider for the
  message; when the run returns a result, it is the outcome of the last invocation.
\<close>

lemma execute_invoke_calls:
  assumes "execute cb (invoke provider message) w = (x, cb1, w1)"
  shows "(rejects cb w \<and> x = Inl (Error ''Circuit breaker is OPEN'') \<and> cb1 = cb \<and> w1 = w)
         \<or> (\<not> rejects cb w \<and> x = fst (provider_sendEmail provider message w)
             \<and> invocations w1 = invocations w @ [(provider_name provider, msg_id message, x)]
             \<and> w1 = snd (invoke provider message w))"
  using execute_cases[OF assms] invoke_world[of provider message w x w1]
  by (auto simp: rejects_def)

lemma sendWithRetry_loop_calls:
  assumes "sendWithRetry_loop tm ro message provider cb attempt svc w = (r, svc', w')"
  shows "\<exists>calls. invocations w' = invocations w @ calls
           \<and> (\<forall>c \<in> set calls. fst c = provider_name provider \<and> fst (snd c) = msg_id message)
           \<and> (\<forall>result. r = Inr result
                 \<longrightarrow> calls \<noteq> [] \<and> last calls = (provider_name provider, msg_id message, Inr result))"
  using assms
proof (induction rule: sendWithRetry_loop_run_induct)
  case (stop cb attempt svc w)
  then show ?case by simp
next
  case (success cb attempt svc w result cb1 w1)
  from execute_invoke_calls[OF success(2)]
  have "invocations w1 = invocations w @ [(provider_name provider, msg_id message, Inr result)]"
    by auto
  then show ?case by simp
next
  case (final cb attempt svc w error cb1 w1)
  from execute_invoke_calls[OF final(3)]
  have "invocations w1 = invocations w
        \<or> invocations w1 = invocations w @ [(provider_name provider, msg_id message, Inl error)]"
    by auto
  then show ?case by auto
next
  case (retry cb attempt svc w error cb1 w1 r svc' w')
  from execute_invoke_calls[OF retry(2)]
  have "invocations w1 = invocations w
        \<or> invocations w1 = invocations w @ [(provider_name provider, msg_id message, Inl error)]"
    by auto
  then have "\<exists>c0. invocations w1 = invocations w @ c0
                \<and> (\<forall>c \<in> set c0. fst c = provider_name provider \<and> fst (snd c) = msg_id message)"
  proof
    assume "invocations w1 = invocations w"
    then show ?thesis by (intro exI[of _ "[]"]) simp
  next
    assume "invocations w1 = invocations w @ [(provider_name provider, msg_id message, Inl error)]"
    then show ?thesis
      by (intro exI[of _ "[(provider_name provider, msg_id message, Inl error)]"]) simp
  qed
  then obtain c0 where c0: "invocations w1 = invocations w @ c0"
    "\<forall>c \<in> set c0. fst c = provider_name provider \<and> fst (snd c) = msg_id message"
    by blast
  from retry(4) obtain calls where calls:
    "invocations w' = invocations (delay tm (backoff_delay ro (attempt + 1)) w1) @ calls"
    "\<forall>c \<in> set calls. fst c = provider_name provider \<and> fst (snd c) = msg_id message"
    "\<forall>result. r = Inr result
        \<longrightarrow> calls \<noteq> [] \<and> last calls = (provider_name provider, msg_id message, Inr result)"
    by blast
  show ?case
    using c0 calls by (intro exI[of _ "c0 @ calls"]) auto
qed

text \<open>
  A provider that fails exactly \<open>k\<close> times and then succeeds is invoked \<open>k + 1\<close> times in a
  run of the retry loop that returns a result.
\<close>

lemma fails_then_succeeds_next:
  assumes "fails_then_succeeds provider message (calls_of (provider_name provider) w) k"
    and "isl (fst (provider_sendEmail provider message w))"
  shows "\<exists>k'. k = Suc k'
           \<and> fails_then_succeeds provider message (calls_of (provider_name provider) w + 1) k'"
proof (cases k)
  case 0
  with assms show ?thesis by (simp add: fails_then_succeeds_def)
next
  case (Suc k')
  with assms(1) show ?thesis unfolding fails_then_succeeds_def by auto
qed

lemma loop_success_count:
  assumes "sendWithRetry_loop tm ro message provider cb attempt svc w = (r, svc', w')"
  shows "\<forall>k result. r = Inr result
           \<longrightarrow> fails_then_succeeds provider message (calls_of (provider_name provider) w) k
           \<longrightarrow> length (invocations w') = length (invocations w) + k + 1"
  using assms
proof (induction rule: sendWithRetry_loop_run_induct)
  case (stop cb attempt svc w)
  then show ?case by simp
next
  case (success cb attempt svc w result cb1 w1)
  show ?case
  proof (intro allI impI)
    fix k result'
    assume f: "fails_then_succeeds provider message (calls_of (provider_name provider) w) k"
    from execute_invoke_calls[OF success(2)]
    have x: "fst (provider_sendEmail provider message w) = Inr result"
      and i: "invocations w1 = invocations w @ [(provider_name provider, msg_id message, Inr result)]"
      by auto
    have "k = 0"
    proof (rule ccontr)
      assume "k \<noteq> 0"
      then have "isl (fst (provider_sendEmail provider message w))"
        using f unfolding fails_then_succeeds_def by auto
      then show False using x by simp
    qed
    then show "length (invocations w1) = length (invocations w) + k + 1" using i by simp
  qed
next
  case (final cb attempt svc w error cb1 w1)
  then show ?case by simp
next
  case (retry cb attempt svc w error cb1 w1 r svc' w')
  let ?w2 = "delay tm (backoff_delay ro (attempt + 1)) w1"
  show ?case
  proof (intro allI impI)
    fix k result
    assume r: "r = Inr result"
      and f: "fails_then_succeeds provider message (calls_of (provider_name provider) w) k"
    from execute_invoke_calls[OF retry(2)]
    consider (rejected) "w1 = w"
      | (invoked) "fst (provider_sendEmail provider message w) = Inl error"
          "invocations w1 = invocations w @ [(provider_name provider, msg_id message, Inl error)]"
          "w1 = snd (invoke provider message w)"
      by auto
    then show "length (invocations w') = length (invocations w) + k + 1"
    proof cases
      case rejected
      then have "fails_then_succeeds provider message (calls_of (provider_name provider) ?w2) k"
        using f by simp
      with retry(4) r have "length (invocations w') = length (invocations ?w2) + k + 1" by blast
      then show ?thesis using rejected by simp
    next
      case invoked
      from fails_then_succeeds_next[OF f] invoked(1)
      obtain k' where k: "k = Suc k'"
        "fails_then_succeeds provider message (calls_of (provider_name provider) w + 1) k'"
        by auto
      have "calls_of (provider_name provider) ?w2 = calls_of (provider_name provider) w + 1"
        using invoked(3) by (simp add: calls_of_invoke)
      then have "fails_then_succeeds provider message (calls_of (provider_name provider) ?w2) k'"
        using k(2) by simp
      with retry(4) r have "length (invocations w') = length (invocations ?w2) + k' + 1" by blast
      then show ?thesis using invoked(2) k(1) by simp
    qed
  qed
qed

text \<open>A provider that always throws makes the retry loop throw.\<close>

lemma execute_always_throws:
  assumes "always_throws provider" "execute cb (invoke provider message) w = (r, cb1, w1)"
  shows "isl r"
  using execute_cases[OF assms(2)] invoke_world[of provider message w r w1] assms(1)
  by (auto simp: always_throws_def)

lemma loop_always_throws:
  assumes "sendWithRetry_loop tm ro message provider cb attempt svc w = (r, svc', w')"
    and "always_throws provider"
  shows "isl r"
  using assms
proof (induction rule: sendWithRetry_loop_run_induct)
  case (success cb attempt svc w result cb1 w1)
  then show ?case using execute_always_throws by fastforce
qed simp_all

lemma sendWithRetry_throws:
  assumes "sendWithRetry tm message provider cb svc w = (r, svc', w')"
    and "always_throws provider"
  shows "\<exists>error calls.
           r = Inl error
         \<and> emailStatuses svc'
             = (\<lambda>j. if j = msg_id message
                     then map_option (bump (nat (maxAttempts (retry (options svc))))) (emailStatuses svc j)
                     else emailStatuses svc j)
         \<and> svc' = svc\<lparr>circuitBreakers := circuitBreakers svc', emailStatuses := emailStatuses svc'\<rparr>
         \<and> (\<forall>name. name \<noteq> provider_name provider \<longrightarrow> circuitBreakers svc' name = circuitBreakers svc name)
         \<and> (circuitBreakers svc (provider_name provider) \<noteq> None
              \<longrightarrow> circuitBreakers svc' (provider_name provider) \<noteq> None)
         \<and> invocations w' = invocations w @ calls
         \<and> (\<forall>c \<in> set calls. fst c = provider_name provider)"
proof -
  note loop = assms(1)[unfolded sendWithRetry_def]
  from loop_always_throws[OF loop assms(2)] obtain error where r: "r = Inl error"
    by (cases r) auto
  from sendWithRetry_loop_effect[OF loop] r obtain n where n:
    "emailStatuses svc'
       = (\<lambda>j. if j = msg_id message then map_option (bump n) (emailStatuses svc j)
              else emailStatuses svc j)"
    "int (0 + n) = max (int 0) (maxAttempts (retry (options svc)))"
    by auto
  have nn: "n = nat (maxAttempts (retry (options svc)))" using n(2) by simp
  have st: "emailStatuses svc'
             = (\<lambda>j. if j = msg_id message
                     then map_option (bump (nat (maxAttempts (retry (options svc))))) (emailStatuses svc j)
                     else emailStatuses svc j)"
    using n(1) unfolding nn .
  from sendWithRetry_loop_calls[OF loop] obtain calls where
    "invocations w' = invocations w @ calls" "\<forall>c \<in> set calls. fst c = provider_name provider"
    by blast
  then show ?thesis
    using r st sendWithRetry_loop_frame[OF loop] sendWithRetry_loop_breakers[OF loop] by blast
qed

lemma fallback_prefix:
  assumes "\<forall>p \<in> set before. always_throws p \<and> circuitBreakers svc (provider_name p) \<noteq> None"
  shows "\<exists>le svc_k w_k early.
           sendWithRetryAndFallback_loop tm message (before @ qs) lastError svc w
             = sendWithRetryAndFallback_loop tm message qs le svc_k w_k
         \<and> snd (sendWithRetryAndFallback_loop tm message before lastError svc w) = (svc_k, w_k)
         \<and> emailStatuses svc_k
             = (\<lambda>j. if j = msg_id message
                     then map_option (bump (length before * nat (maxAttempts (retry (options svc)))))
                            (emailStatuses svc j)
                     else emailStatuses svc j)
         \<and> svc_k = svc\<lparr>circuitBreakers := circuitBreakers svc_k, emailStatuses := emailStatuses svc_k\<rparr>
         \<and> (\<forall>name. name \<notin> provider_name ` set before
                \<longrightarrow> circuitBreakers svc_k name = circuitBreakers svc name)
         \<and> (\<forall>name. circuitBreakers svc name \<noteq> None \<longrightarrow> circuitBreakers svc_k name \<noteq> None)
         \<and> invocations w_k = invocations w @ early
         \<and> (\<forall>c \<in> set early. fst c \<in> provider_name ` set before)"
  using assms
proof (induction before arbitrary: lastError svc w)
  case Nil
  have st0: "emailStatuses svc
             = (\<lambda>j. if j = msg_id message
                     then map_option (bump (length ([] :: EmailProvider list)
                                            * nat (maxAttempts (retry (options svc)))))
                            (emailStatuses svc j)
                     else emailStatuses svc j)"
    by (rule ext) (simp add: bump_0)
  show ?case
    apply (rule exI[of _ lastError], rule exI[of _ svc], rule exI[of _ w], rule exI[of _ "[]"])
    using st0 by (simp add: Let_def)
next
  case (Cons p before)
  from Cons.prems obtain cb where cb: "circuitBreakers svc (provider_name p) = Some cb" by auto
  have thr: "always_throws p" using Cons.prems by simp
  obtain x svc1 w1 where one: "sendWithRetry tm message p cb svc w = (x, svc1, w1)"
    by (cases "sendWithRetry tm message p cb svc w") auto
  from sendWithRetry_throws[OF one thr] obtain error calls where t:
    "x = Inl error"
    "emailStatuses svc1
       = (\<lambda>j. if j = msg_id message
               then map_option (bump (nat (maxAttempts (retry (options svc))))) (emailStatuses svc j)
               else emailStatuses svc j)"
    "svc1 = svc\<lparr>circuitBreakers := circuitBreakers svc1, emailStatuses := emailStatuses svc1\<rparr>"
    "\<forall>name. name \<noteq> provider_name p \<longrightarrow> circuitBreakers svc1 name = circuitBreakers svc name"
    "circuitBreakers svc (provider_name p) \<noteq> None \<longrightarrow> circuitBreakers svc1 (provider_name p) \<noteq> None"
    "invocations w1 = invocations w @ calls"
    "\<forall>c \<in> set calls. fst c = provider_name p"
    by blast
  have opt: "options svc1 = options svc" by (subst t(3)) simp
  have keep1: "\<forall>name. circuitBreakers svc name \<noteq> None \<longrightarrow> circuitBreakers svc1 name \<noteq> None"
    using t(4,5) by metis
  have prem: "\<forall>q \<in> set before. always_throws q \<and> circuitBreakers svc1 (provider_name q) \<noteq> None"
    using Cons.prems keep1 by simp
  from Cons.IH[OF prem, of "Some (error_message error)" w1]
  obtain le svc_k w_k early where ih:
    "sendWithRetryAndFallback_loop tm message (before @ qs) (Some (error_message error)) svc1 w1
       = sendWithRetryAndFallback_loop tm message qs le svc_k w_k"
    "snd (sendWithRetryAndFallback_loop tm message before (Some (error_message error)) svc1 w1)
       = (svc_k, w_k)"
    "emailStatuses svc_k
       = (\<lambda>j. if j = msg_id message
               then map_option (bump (length before * nat (maxAttempts (retry (options svc1)))))
                      (emailStatuses svc1 j)
               else emailStatuses svc1 j)"
    "svc_k = svc1\<lparr>circuitBreakers := circuitBreakers svc_k, emailStatuses := emailStatuses svc_k\<rparr>"
    "\<forall>name. name \<notin> provider_name ` set before \<longrightarrow> circuitBreakers svc_k name = circuitBreakers svc1 name"
    "\<forall>name. circuitBreakers svc1 name \<noteq> None \<longrightarrow> circuitBreakers svc_k name \<noteq> None"
    "invocations w_k = invocations w1 @ early"
    "\<forall>c \<in> set early. fst c \<in> provider_name ` set before"
    by blast
  have a: "sendWithRetryAndFallback_loop tm message ((p # before) @ qs) lastError svc w
           = sendWithRetryAndFallback_loop tm message qs le svc_k w_k"
    using cb one t(1) ih(1) by simp
  have b: "snd (sendWithRetryAndFallback_loop tm message (p # before) lastError svc w) = (svc_k, w_k)"
    using cb one t(1) ih(2) by simp
  have c: "emailStatuses svc_k
             = (\<lambda>j. if j = msg_id message
                     then map_option (bump (length (p # before) * nat (maxAttempts (retry (options svc)))))
                            (emailStatuses svc j)
                     else emailStatuses svc j)"
    unfolding ih(3) t(2) opt by (auto simp: bump_bump)
  have d: "svc_k = svc\<lparr>circuitBreakers := circuitBreakers svc_k, emailStatuses := emailStatuses svc_k\<rparr>"
    by (subst ih(4), subst t(3)) simp
  have e: "\<forall>name. name \<notin> provider_name ` set (p # before)
                \<longrightarrow> circuitBreakers svc_k name = circuitBreakers svc name"
    using ih(5) t(4) by auto
  have f: "\<forall>name. circuitBreakers svc name \<noteq> None \<longrightarrow> circuitBreakers svc_k name \<noteq> None"
    using keep1 ih(6) by blast
  have g: "invocations w_k = invocations w @ (calls @ early)" using ih(7) t(6) by simp
  have h: "\<forall>c \<in> set (calls @ early). fst c \<in> provider_name ` set (p # before)"
    using ih(8) t(7) by auto
  show ?case
    using a b c d e f g h by blast
qed

lemma calls_of_append_other:
  assumes "invocations w' = invocations w @ early" "\<forall>c \<in> set early. fst c \<noteq> name"
  shows "calls_of name w' = calls_of name w"
proof -
  have "filter (\<lambda>(n, i, r). n = name) early = []"
    using assms(2) by (auto simp: filter_empty_conv)
  then show ?thesis using assms(1) by (simp add: calls_of_def)
qed

lemma sendWithRetry_counts:
  "\<exists>n. emailStatuses (fst (snd (sendWithRetry tm message provider cb svc w)))
          = (\<lambda>j. if j = msg_id message then map_option (bump n) (emailStatuses svc j)
                 else emailStatuses svc j)
      \<and> int n \<le> max 0 (maxAttempts (retry (options svc)))
      \<and> length (invocations (snd (snd (sendWithRetry tm message provider cb svc w))))
          + rejected_tries tm (retry (options svc)) message provider (cb, w) n
        = length (invocations w) + n
      \<and> (case fst (sendWithRetry tm message provider cb svc w) of
           Inl error \<Rightarrow> int n = max 0 (maxAttempts (retry (options svc)))
         | Inr result \<Rightarrow>
             1 \<le> n
             \<and> (\<forall>k. fails_then_succeeds provider message (calls_of (provider_name provider) w) k
                   \<longrightarrow> n = k + 1 + rejected_tries tm (retry (options svc)) message provider (cb, w) n))"
proof -
  let ?ro = "retry (options svc)"
  obtain r svc' w' where res: "sendWithRetry tm message provider cb svc w = (r, svc', w')"
    by (cases "sendWithRetry tm message provider cb svc w") auto
  note loop = res[unfolded sendWithRetry_def]
  show ?thesis
  proof (cases "0 < maxAttempts ?ro")
    case False
    then have "\<not> int 0 < maxAttempts ?ro" by simp
    from loop_done[OF this, of tm message provider cb svc w] loop
    have "r = Inl (max_attempts_error ?ro)" "svc' = svc" "w' = w" by simp_all
    then show ?thesis
      unfolding res using False
      by (intro exI[of _ 0]) (auto simp: bump_0 rejected_tries_def)
  next
    case True
    from sendWithRetry_tries[OF res True] obtain m where m:
      "1 \<le> m" "int m \<le> maxAttempts ?ro"
      "isl r \<longrightarrow> int m = maxAttempts ?ro"
      "emailStatuses svc'
         = (\<lambda>j. if j = msg_id message then map_option (bump m) (emailStatuses svc j)
                else emailStatuses svc j)"
      "length (invocations w') + rejected_tries tm ?ro message provider (cb, w) m
       = length (invocations w) + m"
      by blast
    have c: "case r of
           Inl error \<Rightarrow> int m = max 0 (maxAttempts ?ro)
         | Inr result \<Rightarrow>
             1 \<le> m
             \<and> (\<forall>k. fails_then_succeeds provider message (calls_of (provider_name provider) w) k
                   \<longrightarrow> m = k + 1 + rejected_tries tm ?ro message provider (cb, w) m)"
    proof (cases r)
      case (Inl error)
      then show ?thesis using m(3) True by simp
    next
      case (Inr result)
      have "\<forall>k. fails_then_succeeds provider message (calls_of (provider_name provider) w) k
                   \<longrightarrow> m = k + 1 + rejected_tries tm ?ro message provider (cb, w) m"
      proof (intro allI impI)
        fix k assume "fails_then_succeeds provider message (calls_of (provider_name provider) w) k"
        with loop_success_count[OF loop] Inr
        have "length (invocations w') = length (invocations w) + k + 1" by blast
        with m(5) show "m = k + 1 + rejected_tries tm ?ro message provider (cb, w) m" by simp
      qed
      then show ?thesis using Inr m(1) by simp
    qed
    show ?thesis
      unfolding res using m(2,4,5) c True
      by (intro exI[of _ m]) simp
  qed
qed

lemma sendEmail_after_fallback:
  assumes "alreadySent message svc w = None"
    and "providers svc = before @ provider # rest"
    and "\<forall>p \<in> set before. always_throws p \<and> circuitBreakers svc (provider_name p) \<noteq> None
                          \<and> provider_name p \<noteq> provider_name provider"
    and "circuitBreakers svc (provider_name provider) = Some cb"
    and "state cb = Closed"
    and "int (length (failureHistory cb)) + int k < failureThreshold (cb_options cb)"
    and "int k < maxAttempts (retry (options svc))"
    and "fst (acquire (clock w) (rateLimiter svc))"
    and "fails_then_succeeds provider message (calls_of (provider_name provider) w) k"
  shows "\<exists>result svc' w' st early calls.
           sendEmail tm message svc w = (Inr result, svc', w')
         \<and> emailStatuses svc' (msg_id message) = Some st
         \<and> st_attempts st = length before * nat (maxAttempts (retry (options svc))) + k + 1
         \<and> invocations w' = invocations w @ early @ calls
         \<and> (\<forall>c \<in> set early. fst c \<in> provider_name ` set before)
         \<and> length calls = k + 1
         \<and> (\<forall>c \<in> set calls. fst c = provider_name provider \<and> fst (snd c) = msg_id message)
         \<and> (\<forall>c \<in> set (butlast calls). isl (snd (snd c)))
         \<and> snd (snd (last calls)) = Inr result"
proof -
  have no: "\<not> allCircuitBreakersOpen svc"
    using assms(2,4,5) by (simp add: allCircuitBreakersOpen_def getState_def)
  obtain rl where ac: "acquire (clock w) (rateLimiter svc) = (True, rl)"
    using assms(8) by (cases "acquire (clock w) (rateLimiter svc)") auto
  let ?svc1 = "updateStatus (msg_id message) (sending_status message w) (svc\<lparr>rateLimiter := rl\<rparr>)"
  let ?M = "nat (maxAttempts (retry (options svc)))"
  have s1: "providers ?svc1 = before @ provider # rest"
    "circuitBreakers ?svc1 = circuitBreakers svc"
    "options ?svc1 = options svc"
    "emailStatuses ?svc1 (msg_id message) = Some (sending_status message w)"
    using assms(2) by (simp_all add: updateStatus_def)
  have pre: "\<forall>p \<in> set before. always_throws p \<and> circuitBreakers ?svc1 (provider_name p) \<noteq> None"
    using assms(3) s1(2) by simp
  from fallback_prefix[OF pre, of tm message "provider # rest" None w]
  obtain le svc_k w_k early where p:
    "sendWithRetryAndFallback_loop tm message (before @ provider # rest) None ?svc1 w
       = sendWithRetryAndFallback_loop tm message (provider # rest) le svc_k w_k"
    "emailStatuses svc_k
       = (\<lambda>j. if j = msg_id message
               then map_option (bump (length before * nat (maxAttempts (retry (options ?svc1)))))
                      (emailStatuses ?svc1 j)
               else emailStatuses ?svc1 j)"
    "svc_k = ?svc1\<lparr>circuitBreakers := circuitBreakers svc_k, emailStatuses := emailStatuses svc_k\<rparr>"
    "\<forall>name. name \<notin> provider_name ` set before
         \<longrightarrow> circuitBreakers svc_k name = circuitBreakers ?svc1 name"
    "invocations w_k = invocations w @ early"
    "\<forall>c \<in> set early. fst c \<in> provider_name ` set before"
    by blast
  have optk: "options svc_k = options svc" by (subst p(3)) (simp add: updateStatus_def)
  have notin: "provider_name provider \<notin> provider_name ` set before" using assms(3) by auto
  have cbk: "circuitBreakers svc_k (provider_name provider) = Some cb"
    using p(4) notin s1(2) assms(4) by simp
  have stk: "emailStatuses svc_k (msg_id message)
             = Some (bump (length before * ?M) (sending_status message w))"
    using p(2) s1(3,4) by simp
  have "\<forall>c \<in> set early. fst c \<noteq> provider_name provider" using p(6) notin by auto
  from calls_of_append_other[OF p(5) this]
  have ck: "calls_of (provider_name provider) w_k = calls_of (provider_name provider) w" .
  have f: "fails_then_succeeds provider message (calls_of (provider_name provider) w_k) k"
    using assms(9) ck by simp
  have k: "int (0 + k) < maxAttempts (retry (options svc_k))" using assms(7) optk by simp
  from loop_fails_then_succeeds[OF assms(5,6) k f, of tm svc_k]
  obtain result svc2 w2 calls where r:
    "sendWithRetry_loop tm (retry (options svc_k)) message provider cb 0 svc_k w_k = (Inr result, svc2, w2)"
    "emailStatuses svc2 (msg_id message)
       = map_option (bump (k + 1)) (emailStatuses svc_k (msg_id message))"
    "invocations w2 = invocations w_k @ calls"
    "length calls = k + 1"
    "\<forall>entry \<in> set calls. fst entry = provider_name provider \<and> fst (snd entry) = msg_id message"
    "\<forall>entry \<in> set (butlast calls). isl (snd (snd entry))"
    "snd (snd (last calls)) = Inr result"
    by blast
  have d: "sendWithRetryAndFallback tm message ?svc1 w = (Inr result, svc2, w2)"
    unfolding sendWithRetryAndFallback_def s1(1) p(1)
    using cbk r(1) by (simp add: sendWithRetry_def)
  have a2: "attempts_or_0 svc2 (msg_id message) = length before * ?M + k + 1"
    using r(2) stk by (simp add: attempts_or_0_def bump_def sending_status_def)
  note se = sendEmail_delivery[OF assms(1) no ac d]
  let ?svc' = "(svc2\<lparr>sentEmails := (if res_success result then insert (msg_id message) (sentEmails svc2)
                                         else sentEmails svc2)\<rparr>)
                 \<lparr>emailStatuses := (emailStatuses svc2)(msg_id message \<mapsto> final_status message result svc2 w2)\<rparr>"
  have inv: "invocations w2 = invocations w @ early @ calls" using r(3) p(5) by simp
  show ?thesis
    unfolding se using inv p(6) r(4-7) a2
    by (intro exI[of _ result] exI[of _ "?svc'"] exI[of _ w2]
          exI[of _ "final_status message result svc2 w2"] exI[of _ early] exI[of _ calls])
       (simp add: final_status_def)
qed

text \<open>
  Claim C7 says that a provider that fails exactly \<open>k\<close> times and then succeeds, with
  \<open>k < maxAttempts\<close>, leaves the attempt counter at \<open>k + 1\<close>. With a breaker that opens at
  the first failure and four attempts allowed, the provider fails once and succeeds at its
  second call, and the counter is 3: between the two calls one try was rejected by the open
  breaker, and a rejected try is counted too.
\<close>

theorem attempts_counterexample:
  "fst (first_send (failing_first 1) eager_breaker_options) = Inr (accepted 500)
   \<and> invocations (snd (snd (first_send (failing_first 1) eager_breaker_options)))
       = [(''Provider A'', ''test-1'', Inl network_error),
          (''Provider A'', ''test-1'', Inr (accepted 500))]
   \<and> (1::int) < maxAttempts (retry eager_breaker_options)
   \<and> map_option st_attempts
         (emailStatuses (fst (snd (first_send (failing_first 1) eager_breaker_options))) ''test-1'')
       = Some 3
   \<and> (3::nat) \<noteq> 1 + 1"
  using first_send_flaky by (simp add: eager_breaker_options_def)

text \<open>
  Claim C7, as the code has it. In every call of \<open>sendWithRetry\<close>, whatever the provider,
  its breaker, the service and the world, the attempt counter of the message grows by
  exactly the number \<open>n\<close> of tries of the call, and no other status changes. A try is
  counted before \<open>execute\<close> is called, so it is counted whether the breaker lets it through
  to the provider or rejects it: \<open>n\<close> is the number of invocations of the provider plus the
  number of rejected tries. \<open>n\<close> is at most \<open>maxAttempts\<close>, and it is \<open>maxAttempts\<close> when
  the call throws. When the call returns a result and the provider fails exactly \<open>k\<close> times
  and then succeeds, \<open>n\<close> is \<open>k + 1\<close> plus the number of rejected tries. The call is run
  from start to end: each try starts with the breaker as the try before it has left it, no
  other submission having used the breaker in between.

  For a whole submission that reaches the delivery and is run from start to end, no other
  submission interleaved with it (the breakers are shared): let the providers before \<open>provider0\<close>
  in the list throw at every call, under names other than its name, and let the breaker of
  \<open>provider0\<close> be closed with fewer than \<open>failureThreshold - k0\<close> failures in its history,
  so that it rejects no try. If \<open>provider0\<close> fails exactly \<open>k0\<close> times and then succeeds,
  with \<open>k0 < maxAttempts\<close>, then \<open>sendEmail\<close> returns the result of its invocation number
  \<open>k0 + 1\<close>, the first \<open>k0\<close> having thrown, and the attempt counter of the status is
  \<open>k0 + 1\<close> plus \<open>maxAttempts\<close> for each provider before it.
\<close>

theorem every_try_counted:
  "(\<exists>n. emailStatuses (fst (snd (sendWithRetry tm message provider cb svc w)))
          = (\<lambda>j. if j = msg_id message then map_option (bump n) (emailStatuses svc j)
                 else emailStatuses svc j)
      \<and> int n \<le> max 0 (maxAttempts (retry (options svc)))
      \<and> length (invocations (snd (snd (sendWithRetry tm message provider cb svc w))))
          + rejected_tries tm (retry (options svc)) message provider (cb, w) n
        = length (invocations w) + n
      \<and> (case fst (sendWithRetry tm message provider cb svc w) of
           Inl error \<Rightarrow> int n = max 0 (maxAttempts (retry (options svc)))
         | Inr result \<Rightarrow>
             1 \<le> n
             \<and> (\<forall>k. fails_then_succeeds provider message (calls_of (provider_name provider) w) k
                   \<longrightarrow> n = k + 1 + rejected_tries tm (retry (options svc)) message provider (cb, w) n)))
   \<and> (alreadySent message svc0 w0 = None
      \<and> providers svc0 = before @ provider0 # rest
      \<and> (\<forall>p \<in> set before. always_throws p \<and> circuitBreakers svc0 (provider_name p) \<noteq> None
                            \<and> provider_name p \<noteq> provider_name provider0)
      \<and> circuitBreakers svc0 (provider_name provider0) = Some cb0
      \<and> state cb0 = Closed
      \<and> int (length (failureHistory cb0)) + int k0 < failureThreshold (cb_options cb0)
      \<and> int k0 < maxAttempts (retry (options svc0))
      \<and> fst (acquire (clock w0) (rateLimiter svc0))
      \<and> fails_then_succeeds provider0 message (calls_of (provider_name provider0) w0) k0
     \<longrightarrow> (\<exists>result svc' w' st early calls.
           sendEmail tm message svc0 w0 = (Inr result, svc', w')
         \<and> emailStatuses svc' (msg_id message) = Some st
         \<and> st_attempts st = length before * nat (maxAttempts (retry (options svc0))) + k0 + 1
         \<and> invocations w' = invocations w0 @ early @ calls
         \<and> (\<forall>c \<in> set early. fst c \<in> provider_name ` set before)
         \<and> length calls = k0 + 1
         \<and> (\<forall>c \<in> set calls. fst c = provider_name provider0 \<and> fst (snd c) = msg_id message)
         \<and> (\<forall>c \<in> set (butlast calls). isl (snd (snd c)))
         \<and> snd (snd (last calls)) = Inr result))"
  using sendWithRetry_counts[of tm message provider cb svc w]
    sendEmail_after_fallback[of message svc0 w0 before provider0 rest cb0 k0 tm]
  by blast

lemma sending_A_flaky:
  "sendWithRetry exact_timer (createTestMessage ''test-1'') (provider_A (failing_first 1))
     (CircuitBreaker_new (circuitBreaker eager_breaker_options))
     (sending_A (failing_first 1) eager_breaker_options) (at_time 0)
   = (Inr (accepted 500),
      (sending_A (failing_first 1) eager_breaker_options)
        \<lparr>circuitBreakers := [''Provider A'' \<mapsto>
           \<lparr>failures = 0, lastFailureTime = 100, state = HalfOpen, successCount = 1,
            failureHistory = [100], cb_options = circuitBreaker eager_breaker_options\<rparr>],
         emailStatuses := [''test-1'' \<mapsto>
           \<lparr>st_messageId = ''test-1'', st_recipient = ''test@example.com'',
            st_subject = ''Test Subject'', st_status = Sending, st_attempts = 3,
            st_lastAttempt = None, st_provider = None, st_error = None, st_created = 0\<rparr>]\<rparr>,
      \<lparr>clock = 500, delays = [100, 200],
       invocations = [(''Provider A'', ''test-1'', Inl network_error),
                      (''Provider A'', ''test-1'', Inr (accepted 500))]\<rparr>)"
  by (simp add: sending_A_def sending_status_def service_eval eager_breaker_options_def accepted_def
      network_error_def numeral_3_eq_3)


theorem every_try_counted_witness:
  "map_option st_attempts
      (emailStatuses
         (fst (snd (sendWithRetry exact_timer (createTestMessage ''test-1'')
                      (provider_A (failing_first 1))
                      (CircuitBreaker_new (circuitBreaker eager_breaker_options))
                      (sending_A (failing_first 1) eager_breaker_options) (at_time 0))))
         ''test-1'') = Some 3
   \<and> length (invocations
         (snd (snd (sendWithRetry exact_timer (createTestMessage ''test-1'')
                      (provider_A (failing_first 1))
                      (CircuitBreaker_new (circuitBreaker eager_breaker_options))
                      (sending_A (failing_first 1) eager_breaker_options) (at_time 0))))) = 2
   \<and> rejected_tries exact_timer (retry eager_breaker_options) (createTestMessage ''test-1'')
         (provider_A (failing_first 1))
         (CircuitBreaker_new (circuitBreaker eager_breaker_options), at_time 0) 3 = 1
   \<and> alreadySent (createTestMessage ''test-1'')
         (service_AB always_failing (failing_first 1) test_options) (at_time 0) = None
   \<and> providers (service_AB always_failing (failing_first 1) test_options)
       = [provider_A always_failing] @ provider_B (failing_first 1) # []
   \<and> always_throws (provider_A always_failing)
   \<and> provider_name (provider_A always_failing) \<noteq> provider_name (provider_B (failing_first 1))
   \<and> map_option state
         (circuitBreakers (service_AB always_failing (failing_first 1) test_options) ''Provider B'')
       = Some Closed
   \<and> fst (acquire (clock (at_time 0))
            (rateLimiter (service_AB always_failing (failing_first 1) test_options)))
   \<and> fails_then_succeeds (provider_B (failing_first 1)) (createTestMessage ''test-1'') 0 1
   \<and> (\<exists>result svc' w' st.
         sendEmail exact_timer (createTestMessage ''test-1'')
           (service_AB always_failing (failing_first 1) test_options) (at_time 0)
           = (Inr result, svc', w')
         \<and> emailStatuses svc' ''test-1'' = Some st
         \<and> st_attempts st = 5)"
proof -
  let ?m = "createTestMessage ''test-1''"
  let ?pA = "provider_A (failing_first 1)"
  let ?cb = "CircuitBreaker_new (circuitBreaker eager_breaker_options)"
  let ?svcA = "sending_A (failing_first 1) eager_breaker_options"
  let ?R = "sendWithRetry exact_timer ?m ?pA ?cb ?svcA (at_time 0)"
  note T1 = every_try_counted[where tm=exact_timer and message="?m" and provider="?pA" and cb="?cb"
      and svc="?svcA" and w="at_time 0"]
  from T1 obtain n where n:
    "emailStatuses (fst (snd ?R))
          = (\<lambda>j. if j = msg_id ?m then map_option (bump n) (emailStatuses ?svcA j)
                 else emailStatuses ?svcA j)"
    "length (invocations (snd (snd ?R)))
          + rejected_tries exact_timer (retry (options ?svcA)) ?m ?pA (?cb, at_time 0) n
        = length (invocations (at_time 0)) + n"
    by blast
  have a: "map_option st_attempts (emailStatuses (fst (snd ?R)) ''test-1'') = Some 3"
    unfolding sending_A_flaky by simp
  have b: "length (invocations (snd (snd ?R))) = 2"
    unfolding sending_A_flaky by simp
  have st0: "emailStatuses ?svcA ''test-1'' = Some (sending_status ?m (at_time 0))"
    by (simp add: sending_A_def updateStatus_def)
  have "map_option st_attempts (emailStatuses (fst (snd ?R)) ''test-1'') = Some n"
    unfolding n(1) using st0 by (simp add: createTestMessage_def bump_def sending_status_def)
  with a have n3: "n = 3" by (metis option.inject)
  have opt: "retry (options ?svcA) = retry eager_breaker_options"
    by (simp add: sending_A_def updateStatus_def service_A_def EmailService_new_def)
  have c: "rejected_tries exact_timer (retry eager_breaker_options) ?m ?pA (?cb, at_time 0) 3 = 1"
    using n(2) b unfolding n3 opt by (simp add: at_time_def)
  let ?svc = "service_AB always_failing (failing_first 1) test_options"
  let ?pB = "provider_B (failing_first 1)"
  let ?cbB = "CircuitBreaker_new (circuitBreaker test_options)"
  have nB: "\<And>f. provider_name (provider_B f) = ''Provider B''"
    "\<And>f. provider_name (provider_A f) = ''Provider A''"
    by (simp_all add: provider_A_def provider_B_def scripted_provider_def)
  have h1: "alreadySent ?m ?svc (at_time 0) = None"
    by (simp add: alreadySent_def service_AB_def EmailService_new_def)
  have h2: "providers ?svc = [provider_A always_failing] @ ?pB # []"
    by (simp add: service_AB_def EmailService_new_def)
  have t: "always_throws (provider_A always_failing)"
    by (simp add: always_throws_def provider_A_def scripted_provider_def always_failing_def)
  have ne: "provider_name (provider_A always_failing) \<noteq> provider_name ?pB"
    by (simp add: nB)
  have h3: "\<forall>p \<in> set [provider_A always_failing].
              always_throws p \<and> circuitBreakers ?svc (provider_name p) \<noteq> None
              \<and> provider_name p \<noteq> provider_name ?pB"
    using t by (simp add: nB service_AB_def EmailService_new_def)
  have h4: "circuitBreakers ?svc (provider_name ?pB) = Some ?cbB"
    by (simp add: nB service_AB_def EmailService_new_def)
  have h5: "state ?cbB = Closed" by (simp add: CircuitBreaker_new_def)
  have h6: "int (length (failureHistory ?cbB)) + int 1 < failureThreshold (cb_options ?cbB)"
    by (simp add: CircuitBreaker_new_def test_options_def)
  have h7: "int 1 < maxAttempts (retry (options ?svc))"
    by (simp add: service_AB_def EmailService_new_def test_options_def)
  have h8: "fst (acquire (clock (at_time 0)) (rateLimiter ?svc))"
    by (simp add: service_AB_def EmailService_new_def RateLimiter_new_def acquire_def refill_def
        Let_def at_time_def test_options_def)
  have c0: "calls_of (provider_name ?pB) (at_time 0) = 0"
    by (simp add: calls_of_def at_time_def)
  have f: "fails_then_succeeds ?pB ?m 0 1"
    by (simp add: fails_then_succeeds_def provider_B_def scripted_provider_def failing_first_def)
  have h9: "fails_then_succeeds ?pB ?m (calls_of (provider_name ?pB) (at_time 0)) 1"
    unfolding c0 by (rule f)
  note T2 = every_try_counted[where tm=exact_timer and message="?m" and ?svc0.0="?svc" and ?w0.0="at_time 0"
      and before="[provider_A always_failing]" and ?provider0.0="?pB" and rest="[]" and ?cb0.0="?cbB"
      and ?k0.0=1]
  from T2 h1 h2 h3 h4 h5 h6 h7 h8 h9
  obtain result svc' w' st early calls where r:
    "sendEmail exact_timer ?m ?svc (at_time 0) = (Inr result, svc', w')"
    "emailStatuses svc' (msg_id ?m) = Some st"
    "st_attempts st = length [provider_A always_failing] * nat (maxAttempts (retry (options ?svc))) + 1 + 1"
    "invocations w' = invocations (at_time 0) @ early @ calls"
    "length calls = 1 + 1"
    by blast
  have M: "nat (maxAttempts (retry (options ?svc))) = 3"
    by (simp add: service_AB_def EmailService_new_def test_options_def)
  have e: "\<exists>result svc' w' st.
         sendEmail exact_timer ?m ?svc (at_time 0) = (Inr result, svc', w')
         \<and> emailStatuses svc' ''test-1'' = Some st
         \<and> st_attempts st = 5"
    using r(1,2,3) unfolding M by (simp add: createTestMessage_def)
  have s: "map_option state (circuitBreakers ?svc ''Provider B'') = Some Closed"
    using h4 h5 nB by simp
  show ?thesis using a b c h1 h2 t ne s h8 f e by blast
qed

section \<open>Every provider of a constructed service has a breaker\<close>

lemma fold_breakers:
  "(\<forall>p \<in> set ps. fold (\<lambda>provider m. m(provider_name provider \<mapsto> c)) ps m0 (provider_name p) \<noteq> None)
   \<and> (\<forall>k. m0 k \<noteq> None \<longrightarrow> fold (\<lambda>provider m. m(provider_name provider \<mapsto> c)) ps m0 k \<noteq> None)"
proof (induction ps arbitrary: m0)
  case Nil
  then show ?case by simp
next
  case (Cons a ps)
  from Cons[of "m0(provider_name a \<mapsto> c)"] show ?case by auto
qed

lemma new_breakers_present: "breakers_present (EmailService_new ps opts t0)"
  using fold_breakers[of ps "CircuitBreaker_new (circuitBreaker opts)" Map.empty]
  by (simp add: breakers_present_def EmailService_new_def)

lemma sendEmail_keeps_breakers:
  "providers (fst (snd (sendEmail tm message svc w))) = providers svc
   \<and> (\<forall>name. circuitBreakers svc name \<noteq> None
         \<longrightarrow> circuitBreakers (fst (snd (sendEmail tm message svc w))) name \<noteq> None)"
proof (cases "alreadySent message svc w")
  case (Some result)
  then show ?thesis by (simp add: sendEmail_already)
next
  case None
  show ?thesis
  proof (cases "allCircuitBreakersOpen svc")
    case True
    with None show ?thesis by (simp add: sendEmail_all_open)
  next
    case False
    obtain admitted rl where ac: "acquire (clock w) (rateLimiter svc) = (admitted, rl)"
      by (cases "acquire (clock w) (rateLimiter svc)") auto
    show ?thesis
    proof (cases admitted)
      case False
      with None \<open>\<not> allCircuitBreakersOpen svc\<close> ac show ?thesis
        by (simp add: sendEmail_rate_limited)
    next
      case True
      let ?svc1 = "updateStatus (msg_id message) (sending_status message w) (svc\<lparr>rateLimiter := rl\<rparr>)"
      obtain r svc2 w2 where d: "sendWithRetryAndFallback tm message ?svc1 w = (r, svc2, w2)"
        by (cases "sendWithRetryAndFallback tm message ?svc1 w") auto
      from sendWithRetryAndFallback_loop_effect[OF d[unfolded sendWithRetryAndFallback_def]]
      obtain result where
        fr: "svc2 = ?svc1\<lparr>circuitBreakers := circuitBreakers svc2, emailStatuses := emailStatuses svc2\<rparr>"
        and keep: "\<forall>name. circuitBreakers ?svc1 name \<noteq> None \<longrightarrow> circuitBreakers svc2 name \<noteq> None"
        and r: "r = Inr result"
        by blast
      have p: "providers svc2 = providers svc"
        by (subst fr) (simp add: updateStatus_def)
      have ac': "acquire (clock w) (rateLimiter svc) = (True, rl)" using ac True by simp
      show ?thesis
        using sendEmail_delivery[OF None \<open>\<not> allCircuitBreakersOpen svc\<close> ac' d[unfolded r]] p keep
        by (simp add: updateStatus_def)
    qed
  qed
qed

lemma sendEmail_breakers_present:
  "breakers_present svc \<Longrightarrow> breakers_present (fst (snd (sendEmail tm message svc w)))"
  using sendEmail_keeps_breakers[of tm message svc w] by (simp add: breakers_present_def)

lemma processQueue_resume_breakers_present:
  assumes "breakers_present svc"
  shows "breakers_present (fst (processQueue_resume tm svc w))"
proof (cases "queueTask svc")
  case not_running
  then show ?thesis using assms by (simp add: processQueue_resume_def)
next
  case (awaiting_delay ms)
  then show ?thesis using assms by (simp add: processQueue_resume_def breakers_present_def)
next
  case (awaiting_acquire admitted)
  show ?thesis
  proof (cases admitted)
    case False
    then show ?thesis using assms awaiting_acquire
      by (simp add: processQueue_resume_def breakers_present_def)
  next
    case True
    show ?thesis
    proof (cases "emailQueue svc")
      case Nil
      then show ?thesis using assms awaiting_acquire True
        by (simp add: processQueue_resume_def breakers_present_def)
    next
      case (Cons message rest)
      have "breakers_present (svc\<lparr>emailQueue := rest\<rparr>)"
        using assms by (simp add: breakers_present_def)
      from sendEmail_breakers_present[OF this, of tm message w]
      show ?thesis using awaiting_acquire True Cons
        by (cases "sendEmail tm message (svc\<lparr>emailQueue := rest\<rparr>) w")
           (simp add: processQueue_resume_def breakers_present_def)
    qed
  qed
qed

lemma step_breakers_present:
  assumes "breakers_present svc"
  shows "breakers_present (fst (step tm e (svc, w)))"
proof (cases e)
  case (ev_sendEmail message)
  then show ?thesis using sendEmail_breakers_present[OF assms, of tm message w]
    by (cases "sendEmail tm message svc w") simp
next
  case ev_resume
  then show ?thesis using processQueue_resume_breakers_present[OF assms, of tm w] by simp
next
  case ev_resetCircuitBreakers
  then show ?thesis using assms by (simp add: resetCircuitBreakers_def breakers_present_def)
next
  case ev_clear
  then show ?thesis using assms by (simp add: clear_def resetCircuitBreakers_def breakers_present_def)
next
  case (ev_clock t)
  then show ?thesis using assms by simp
qed

lemma run_breakers_present:
  "breakers_present (fst s) \<Longrightarrow> breakers_present (fst (run tm es s))"
proof (induction es arbitrary: s)
  case Nil
  then show ?case by simp
next
  case (Cons e es)
  obtain svc w where s: "s = (svc, w)" by (cases s)
  from step_breakers_present[of svc tm e w] Cons.prems s
  have "breakers_present (fst (step tm e s))" by simp
  from Cons.IH[OF this] show ?case by simp
qed

lemma constructed_breakers_present:
  "breakers_present (fst (run tm es (EmailService_new ps opts t0, w0)))"
  using run_breakers_present[of "(EmailService_new ps opts t0, w0)" tm es] new_breakers_present
  by simp

section \<open>Every provider fails\<close>















end
